theory Spec2Isabelle
  imports Main
begin

section \<open>Python values of the request payloads\<close>

text \<open>
  A Python \<open>str\<close> inside a payload is a sequence of code points, kept as natural numbers so
  that the escaping done by \<open>json.dumps\<close> is modelled for the whole of Unicode. \<open>py\<close> turns an
  ASCII literal of the scripts into such a sequence. Texts that the scripts only pass through
  (URLs, header values, the response body, exception messages) and everything that goes over
  the wire stay HOL strings.
\<close>

type_synonym unicode = "nat list"

definition py :: "string \<Rightarrow> unicode" where
  "py s = map of_char s"

text \<open>
  The payloads are built from dicts with string keys, lists, strings and integers. A dict
  is an association list in insertion order, the order in which \<open>json.dumps\<close> writes it.
\<close>

datatype json =
    JStr unicode
  | JInt int
  | JList "json list"
  | JDict "(unicode \<times> json) list"

subsection \<open>\<open>json.dumps\<close> with its default arguments\<close>

text \<open>
  \<open>int.__repr__\<close>: decimal digits, most significant first, a minus sign for a negative
  number.
\<close>

fun dec_digits :: "nat \<Rightarrow> string" where
  "dec_digits n =
     (if n < 10 then [char_of (48 + n)]
      else dec_digits (n div 10) @ [char_of (48 + n mod 10)])"

declare dec_digits.simps [simp del]

definition int_repr :: "int \<Rightarrow> string" where
  "int_repr i = (if i < 0 then CHR ''-'' # dec_digits (nat (- i)) else dec_digits (nat i))"

text \<open>
  \<open>encode_basestring_ascii\<close> (\<open>ensure_ascii=True\<close>): the quote and the backslash are
  escaped, the control characters \<open>\b \f \n \r \t\<close> have short escapes, printable ASCII
  (space to tilde) is copied, every other code point below \<open>0x10000\<close> becomes
  \<open>\uXXXX\<close> with four lower-case hex digits, and a code point from \<open>0x10000\<close> on
  becomes the two escapes of its surrogate pair.
\<close>

definition hex_digit :: "nat \<Rightarrow> char" where
  "hex_digit d = (if d < 10 then char_of (48 + d) else char_of (87 + d))"

definition hex4 :: "nat \<Rightarrow> string" where
  "hex4 n = [hex_digit (n div 4096 mod 16), hex_digit (n div 256 mod 16),
             hex_digit (n div 16 mod 16), hex_digit (n mod 16)]"

definition u_escape :: "nat \<Rightarrow> string" where
  "u_escape n = [CHR 0x5C, CHR ''u''] @ hex4 n"

definition escape_char :: "nat \<Rightarrow> string" where
  "escape_char c =
     (if c = 0x5C then [CHR 0x5C, CHR 0x5C]
      else if c = 0x22 then [CHR 0x5C, CHR 0x22]
      else if c = 0x08 then [CHR 0x5C, CHR ''b'']
      else if c = 0x0C then [CHR 0x5C, CHR ''f'']
      else if c = 0x0A then [CHR 0x5C, CHR ''n'']
      else if c = 0x0D then [CHR 0x5C, CHR ''r'']
      else if c = 0x09 then [CHR 0x5C, CHR ''t'']
      else if 0x20 \<le> c \<and> c \<le> 0x7E then [char_of c]
      else if c < 0x10000 then u_escape c
      else u_escape (0xD800 + (c - 0x10000) div 1024 mod 1024)
           @ u_escape (0xDC00 + (c - 0x10000) mod 1024))"

definition encode_basestring_ascii :: "unicode \<Rightarrow> string" where
  "encode_basestring_ascii s = [CHR 0x22] @ concat (map escape_char s) @ [CHR 0x22]"

text \<open>
  The encoder proper, with the default separators \<open>', '\<close> and \<open>': '\<close>: the first element
  of a list or dict is written as it is, every later one after a separator.
\<close>

fun json_dumps :: "json \<Rightarrow> string"
  and dumps_items :: "json list \<Rightarrow> string"
  and dumps_members :: "(unicode \<times> json) list \<Rightarrow> string" where
  "json_dumps (JStr s) = encode_basestring_ascii s"
| "json_dumps (JInt i) = int_repr i"
| "json_dumps (JList []) = ''[]''"
| "json_dumps (JList (x # xs)) = ''['' @ json_dumps x @ dumps_items xs @ '']''"
| "json_dumps (JDict []) = ''{}''"
| "json_dumps (JDict ((k, v) # kvs)) =
     ''{'' @ encode_basestring_ascii k @ '': '' @ json_dumps v @ dumps_members kvs @ ''}''"
| "dumps_items [] = []"
| "dumps_items (x # xs) = '', '' @ json_dumps x @ dumps_items xs"
| "dumps_members [] = []"
| "dumps_members ((k, v) # kvs) =
     '', '' @ encode_basestring_ascii k @ '': '' @ json_dumps v @ dumps_members kvs"

subsection \<open>\<open>json.loads\<close> on documents of objects, arrays, strings and integers\<close>

text \<open>
  Between tokens the decoder skips the four whitespace characters space, tab, line feed
  and carriage return. Characters of the document are told apart by their codes.
\<close>

definition is_ws :: "char \<Rightarrow> bool" where
  "is_ws c = (of_char c = (0x20::nat) \<or> of_char c = (0x09::nat) \<or> of_char c = (0x0A::nat)
              \<or> of_char c = (0x0D::nat))"

fun skip_ws :: "string \<Rightarrow> string" where
  "skip_ws [] = []"
| "skip_ws (c # cs) = (if is_ws c then skip_ws cs else c # cs)"

text \<open>
  Strings. \<open>scanstring\<close> starts after the opening quote and reads up to the closing one.
  A backslash starts an escape: one of the eight short ones, or \<open>\uXXXX\<close> with four
  hex digits of either case; a high surrogate that is followed by the escape of a low
  surrogate makes one code point with it. A control character that is not escaped is an
  error, every other character stands for itself. \<open>next_char\<close> does one step of the loop.
\<close>

definition hex_val :: "char \<Rightarrow> nat option" where
  "hex_val c =
     (let n = of_char c in
      if 48 \<le> n \<and> n \<le> 57 then Some (n - 48)
      else if 97 \<le> n \<and> n \<le> 102 then Some (n - 87)
      else if 65 \<le> n \<and> n \<le> 70 then Some (n - 55)
      else None)"

definition decode_uXXXX :: "char \<Rightarrow> char \<Rightarrow> char \<Rightarrow> char \<Rightarrow> nat option" where
  "decode_uXXXX a b c d =
     (case (hex_val a, hex_val b, hex_val c, hex_val d) of
        (Some h3, Some h2, Some h1, Some h0) \<Rightarrow> Some (((h3 * 16 + h2) * 16 + h1) * 16 + h0)
      | _ \<Rightarrow> None)"

definition backslash :: "char \<Rightarrow> nat option" where
  "backslash c =
     (let n = of_char c :: nat in
      if n = 0x22 then Some 0x22
      else if n = 0x5C then Some 0x5C
      else if n = 0x2F then Some 0x2F
      else if n = 0x62 then Some 0x08
      else if n = 0x66 then Some 0x0C
      else if n = 0x6E then Some 0x0A
      else if n = 0x72 then Some 0x0D
      else if n = 0x74 then Some 0x09
      else None)"

definition chunk :: "nat \<Rightarrow> (unicode \<times> string) option \<Rightarrow> (unicode \<times> string) option" where
  "chunk c r = (case r of None \<Rightarrow> None | Some (str, rest) \<Rightarrow> Some (c # str, rest))"

definition hex4_at :: "string \<Rightarrow> (nat \<times> string) option" where
  "hex4_at s =
     (case s of
        h3 # h2 # h1 # h0 # rest \<Rightarrow>
          (case decode_uXXXX h3 h2 h1 h0 of None \<Rightarrow> None | Some uni \<Rightarrow> Some (uni, rest))
      | _ \<Rightarrow> None)"

definition backslash_u_at :: "string \<Rightarrow> string option" where
  "backslash_u_at s =
     (case s of
        b # u # rest \<Rightarrow>
          if of_char b = (0x5C::nat) \<and> of_char u = (0x75::nat) then Some rest else None
      | _ \<Rightarrow> None)"

datatype scan_step = Closed string | Code nat string | Malformed

definition next_char :: "string \<Rightarrow> scan_step" where
  "next_char s =
     (case s of
        [] \<Rightarrow> Malformed
      | c # cs \<Rightarrow>
          if of_char c = (0x22::nat) then Closed cs
          else if of_char c = (0x5C::nat) then
            (case cs of
               [] \<Rightarrow> Malformed
             | esc # es \<Rightarrow>
                 if of_char esc = (0x75::nat) then
                   (case hex4_at es of
                      None \<Rightarrow> Malformed
                    | Some (uni, rest) \<Rightarrow>
                        if 0xD800 \<le> uni \<and> uni \<le> 0xDBFF then
                          (case backslash_u_at rest of
                             None \<Rightarrow> Code uni rest
                           | Some digits \<Rightarrow>
                               (case hex4_at digits of
                                  None \<Rightarrow> Malformed
                                | Some (uni2, rest2) \<Rightarrow>
                                    if 0xDC00 \<le> uni2 \<and> uni2 \<le> 0xDFFF
                                    then Code (0x10000 + ((uni - 0xD800) * 1024 + (uni2 - 0xDC00))) rest2
                                    else Code uni rest))
                        else Code uni rest)
                 else
                   (case backslash esc of
                      None \<Rightarrow> Malformed
                    | Some ch \<Rightarrow> Code ch es))
          else if of_char c < (0x20::nat) then Malformed
          else Code (of_char c) cs)"

function scanstring :: "string \<Rightarrow> (unicode \<times> string) option" where
  "scanstring s =
     (case next_char s of
        Malformed \<Rightarrow> None
      | Closed rest \<Rightarrow> Some ([], rest)
      | Code c rest \<Rightarrow> chunk c (scanstring rest))"
  by pat_completeness auto
termination
proof (relation "measure length")
  show "wf (measure length)" by simp
next
  fix s :: string and c rest
  assume step: "next_char s = Code c rest"
  have four: "\<And>t u r. hex4_at t = Some (u, r) \<Longrightarrow> length r < length t"
    by (auto simp: hex4_at_def split: list.splits option.splits)
  have two: "\<And>t r. backslash_u_at t = Some r \<Longrightarrow> length r < length t"
    by (auto simp: backslash_u_at_def split: list.splits if_splits)
  from step have "length rest < length s"
    by (auto simp: next_char_def split: list.splits if_splits option.splits
        dest!: four two)
  then show "(rest, s) \<in> measure length" by simp
qed

declare scanstring.simps [simp del]


text \<open>
  Numbers. The integer part is an optional minus sign and then either a single \<open>0\<close> or
  a digit from 1 to 9 with all the digits that follow. With a fraction or an exponent
  after it the number is a float, which is no value of the payload model: the result is
  \<open>None\<close>, as it is for a document that \<open>json.loads\<close> rejects.
\<close>

definition is_digit :: "char \<Rightarrow> bool" where
  "is_digit c = (48 \<le> (of_char c :: nat) \<and> (of_char c :: nat) \<le> 57)"

definition digits_value :: "string \<Rightarrow> nat" where
  "digits_value ds = foldl (\<lambda>acc d. 10 * acc + (of_char d - 48)) 0 ds"

definition has_frac :: "string \<Rightarrow> bool" where
  "has_frac s = (case s of p # d # rest \<Rightarrow> of_char p = (0x2E::nat) \<and> is_digit d | _ \<Rightarrow> False)"

definition has_exp :: "string \<Rightarrow> bool" where
  "has_exp s =
     (case s of
        [] \<Rightarrow> False
      | e # t \<Rightarrow>
          (of_char e = (0x65::nat) \<or> of_char e = (0x45::nat))
          \<and> (case t of
                [] \<Rightarrow> False
              | x # t' \<Rightarrow>
                  is_digit x
                  \<or> ((of_char x = (0x2B::nat) \<or> of_char x = (0x2D::nat))
                      \<and> (case t' of [] \<Rightarrow> False | d # rest \<Rightarrow> is_digit d))))"

definition match_integer :: "string \<Rightarrow> (nat \<times> string) option" where
  "match_integer s =
     (case s of
        [] \<Rightarrow> None
      | d # t \<Rightarrow>
          if of_char d = (48::nat) then Some (0, t)
          else if is_digit d then Some (digits_value (takeWhile is_digit s), dropWhile is_digit s)
          else None)"

definition match_number :: "string \<Rightarrow> (int \<times> string) option" where
  "match_number s =
     (case (case s of
              [] \<Rightarrow> None
            | c # t \<Rightarrow>
                if of_char c = (0x2D::nat)
                then (case match_integer t of None \<Rightarrow> None | Some (n, rest) \<Rightarrow> Some (- int n, rest))
                else (case match_integer s of None \<Rightarrow> None | Some (n, rest) \<Rightarrow> Some (int n, rest))) of
        None \<Rightarrow> None
      | Some (i, rest) \<Rightarrow> if has_frac rest \<or> has_exp rest then None else Some (i, rest))"

text \<open>
  The decoder collects the members of an object as pairs and builds the dict from them:
  a key that comes again keeps its first place and takes the later value.
\<close>

fun dict_set :: "('k \<times> 'v) list \<Rightarrow> 'k \<Rightarrow> 'v \<Rightarrow> ('k \<times> 'v) list" where
  "dict_set [] k v = [(k, v)]"
| "dict_set ((k', v') # d) k v =
     (if k' = k then (k, v) # d else (k', v') # dict_set d k v)"

definition dict_of_pairs :: "('k \<times> 'v) list \<Rightarrow> ('k \<times> 'v) list" where
  "dict_of_pairs pairs = foldl (\<lambda>d (k, v). dict_set d k v) [] pairs"

text \<open>
  Values. \<open>scan_once\<close> is at the first character of a value, \<open>array_rest\<close> after an
  element of an array, \<open>object_member\<close> after the opening quote of a key and
  \<open>object_rest\<close> after a member of an object. The literals \<open>null\<close>, \<open>true\<close>, \<open>false\<close>,
  \<open>NaN\<close> and \<open>Infinity\<close> are no values of the payload model and give \<open>None\<close>. The
  first argument bounds the depth of the calls; every call reads at least one character
  before it calls deeper, and \<open>json_loads\<close> gives the length of the document as bound.
\<close>

fun scan_once :: "nat \<Rightarrow> string \<Rightarrow> (json \<times> string) option"
  and array_rest :: "nat \<Rightarrow> string \<Rightarrow> (json list \<times> string) option"
  and object_member :: "nat \<Rightarrow> string \<Rightarrow> ((unicode \<times> json) \<times> string) option"
  and object_rest :: "nat \<Rightarrow> string \<Rightarrow> ((unicode \<times> json) list \<times> string) option" where
  "scan_once 0 s = None"
| "scan_once (Suc n) [] = None"
| "scan_once (Suc n) (c # cs) =
     (if of_char c = (0x22::nat) then
        (case scanstring cs of None \<Rightarrow> None | Some (str, rest) \<Rightarrow> Some (JStr str, rest))
      else if of_char c = (0x7B::nat) then
        (case skip_ws cs of
           [] \<Rightarrow> None
         | d # ds \<Rightarrow>
             if of_char d = (0x7D::nat) then Some (JDict [], ds)
             else if of_char d = (0x22::nat) then
               (case object_member n ds of
                  None \<Rightarrow> None
                | Some (kv, rest) \<Rightarrow>
                    (case object_rest n rest of
                       None \<Rightarrow> None
                     | Some (kvs, rest') \<Rightarrow> Some (JDict (dict_of_pairs (kv # kvs)), rest')))
             else None)
      else if of_char c = (0x5B::nat) then
        (case skip_ws cs of
           [] \<Rightarrow> None
         | d # ds \<Rightarrow>
             if of_char d = (0x5D::nat) then Some (JList [], ds)
             else
               (case scan_once n (d # ds) of
                  None \<Rightarrow> None
                | Some (v, rest) \<Rightarrow>
                    (case array_rest n rest of
                       None \<Rightarrow> None
                     | Some (vs, rest') \<Rightarrow> Some (JList (v # vs), rest'))))
      else
        (case match_number (c # cs) of
           None \<Rightarrow> None
         | Some (i, rest) \<Rightarrow> Some (JInt i, rest)))"
| "array_rest 0 s = None"
| "array_rest (Suc n) s =
     (case skip_ws s of
        [] \<Rightarrow> None
      | d # ds \<Rightarrow>
          if of_char d = (0x5D::nat) then Some ([], ds)
          else if of_char d = (0x2C::nat) then
            (case scan_once n (skip_ws ds) of
               None \<Rightarrow> None
             | Some (v, rest) \<Rightarrow>
                 (case array_rest n rest of
                    None \<Rightarrow> None
                  | Some (vs, rest') \<Rightarrow> Some (v # vs, rest')))
          else None)"
| "object_member 0 s = None"
| "object_member (Suc n) s =
     (case scanstring s of
        None \<Rightarrow> None
      | Some (key, rest) \<Rightarrow>
          (case skip_ws rest of
             [] \<Rightarrow> None
           | d # ds \<Rightarrow>
               if of_char d = (0x3A::nat) then
                 (case scan_once n (skip_ws ds) of
                    None \<Rightarrow> None
                  | Some (v, rest') \<Rightarrow> Some ((key, v), rest'))
               else None))"
| "object_rest 0 s = None"
| "object_rest (Suc n) s =
     (case skip_ws s of
        [] \<Rightarrow> None
      | d # ds \<Rightarrow>
          if of_char d = (0x7D::nat) then Some ([], ds)
          else if of_char d = (0x2C::nat) then
            (case skip_ws ds of
               [] \<Rightarrow> None
             | q # qs \<Rightarrow>
                 if of_char q = (0x22::nat) then
                   (case object_member n qs of
                      None \<Rightarrow> None
                    | Some (kv, rest) \<Rightarrow>
                        (case object_rest n rest of
                           None \<Rightarrow> None
                         | Some (kvs, rest') \<Rightarrow> Some (kv # kvs, rest')))
                 else None)
          else None)"

text \<open>
  \<open>json.loads\<close>: whitespace, one value, whitespace, and then the end of the document.
\<close>

definition json_loads :: "string \<Rightarrow> json option" where
  "json_loads s =
     (case scan_once (length s) (skip_ws s) of
        None \<Rightarrow> None
      | Some (v, rest) \<Rightarrow> if skip_ws rest = [] then Some v else None)"

subsection \<open>Valid payloads\<close>

text \<open>
  A payload is valid when its strings, keys included, are sequences of Unicode scalar
  values (code points up to \<open>0x10FFFF\<close> that are no surrogates) and the keys of each dict
  are distinct, as the keys of a Python dict are.
\<close>

definition scalar :: "nat \<Rightarrow> bool" where
  "scalar c = (c < 0xD800 \<or> (0xE000 \<le> c \<and> c < 0x110000))"

fun valid_json :: "json \<Rightarrow> bool"
  and valid_items :: "json list \<Rightarrow> bool"
  and valid_members :: "(unicode \<times> json) list \<Rightarrow> bool" where
  "valid_json (JStr s) = list_all scalar s"
| "valid_json (JInt i) = True"
| "valid_json (JList xs) = valid_items xs"
| "valid_json (JDict kvs) = (distinct (map fst kvs) \<and> valid_members kvs)"
| "valid_items [] = True"
| "valid_items (x # xs) = (valid_json x \<and> valid_items xs)"
| "valid_members [] = True"
| "valid_members ((k, v) # kvs) = (list_all scalar k \<and> valid_json v \<and> valid_members kvs)"

text \<open>
  In a serialized payload a value is followed by a comma, by a closing bracket or brace,
  or by the end of the document.
\<close>

definition ends_value :: "string \<Rightarrow> bool" where
  "ends_value rest =
     (case rest of
        [] \<Rightarrow> True
      | c # cs \<Rightarrow> of_char c = (0x2C::nat) \<or> of_char c = (0x5D::nat) \<or> of_char c = (0x7D::nat))"

section \<open>The world the scripts run in\<close>

text \<open>
  The exceptions that can arise in the two scripts. All of them derive from
  \<open>Exception\<close> but \<open>KeyboardInterrupt\<close>, which derives from \<open>BaseException\<close> only: a clause
  \<open>except Exception\<close> lets it pass, a bare \<open>except:\<close> catches it. \<open>exn_str\<close> is \<open>str(e)\<close>.
\<close>

datatype exn =
    HTTPError string
  | ConnectionError string
  | FileNotFoundError string
  | UnicodeDecodeError string
  | NameError string
  | AttributeError string
  | TooManyRedirects string
  | KeyboardInterrupt

fun is_Exception :: "exn \<Rightarrow> bool" where
  "is_Exception KeyboardInterrupt = False"
| "is_Exception e = True"

fun exn_str :: "exn \<Rightarrow> string" where
  "exn_str (HTTPError m) = m"
| "exn_str (ConnectionError m) = m"
| "exn_str (FileNotFoundError path) =
     ''[Errno 2] No such file or directory: '' @ [CHR 0x27] @ path @ [CHR 0x27]"
| "exn_str (UnicodeDecodeError m) = m"
| "exn_str (NameError x) = ''name '' @ [CHR 0x27] @ x @ [CHR 0x27] @ '' is not defined''"
| "exn_str (AttributeError m) = m"
| "exn_str (TooManyRedirects m) = m"
| "exn_str KeyboardInterrupt = []"

text \<open>
  A response of the server, with the attributes the scripts and \<open>raise_for_status\<close>
  read (\<open>resp_text\<close> is \<open>r.text\<close>, \<open>resp_url\<close> is \<open>r.url\<close>). \<open>location\<close> is \<open>None\<close> for a
  response without a \<open>Location\<close> header; for one that has the header it holds the URL the
  header resolves to together with what happens when a request is sent there: the
  answer of the network to that request, or the exception that sending it raises. A
  server may answer the same request differently each time, so the answers to the later
  requests of a run hang on the responses before them and not on the requests.
\<close>

datatype response =
  Response
    (status_code: nat)
    (reason: string)
    (resp_text: string)
    (resp_url: string)
    (location: "(string \<times> (exn + response)) option")

text \<open>
  The keyword arguments of \<open>requests.post\<close>. An argument a script does not pass has its
  default: no files, no headers, and no timeout (\<open>None\<close>: wait for ever). The content of
  a file part is the sequence of bytes put on the wire.
\<close>

datatype data_arg = Body string | Form "(string \<times> string) list"

record request =
  url :: string
  data :: data_arg
  files :: "(string \<times> string \<times> string) list"
  headers :: "(string \<times> string) list"
  auth :: "(string \<times> string) option"
  proxies :: "(string \<times> string) list"
  timeout :: "nat option"

text \<open>
  What a run depends on: the files on disk (path to bytes, \<open>None\<close> for a path that does
  not exist) and the network, which answers a request with a response or makes
  \<open>requests.post\<close> raise (connection refused, proxy unreachable, an interrupt).
\<close>

record env =
  fs :: "string \<Rightarrow> string option"
  net :: "request \<Rightarrow> exn + response"

text \<open>
  What a run does, in order: \<open>print(x)\<close> on standard output, \<open>traceback.print_exc()\<close> on
  standard error, the POST request that a call of \<open>requests.post\<close> sends, and the requests
  that \<open>requests\<close> sends after it on its own to follow redirects. Of such a request the
  method, the URL and whether the body of the script's request goes with it are kept.
  The state of a run is the module's namespace (a name that was never assigned is
  unbound) and the events so far.
\<close>

datatype meth = GET | POST

record follow_up =
  hop_method :: meth
  hop_url :: string
  hop_body :: bool

datatype event = Print string | PrintExc exn | Post request | Follow follow_up

datatype pyval = VStr string | VJson json | VResp response

record state =
  globals :: "string \<Rightarrow> pyval option"
  trace :: "event list"

type_synonym 'a prog = "state \<Rightarrow> (exn + 'a) \<times> state"

definition py_return :: "'a \<Rightarrow> 'a prog" where
  "py_return a s = (Inr a, s)"

definition py_raise :: "exn \<Rightarrow> 'a prog" where
  "py_raise e s = (Inl e, s)"

definition py_bind :: "'a prog \<Rightarrow> ('a \<Rightarrow> 'b prog) \<Rightarrow> 'b prog" where
  "py_bind m f s = (case m s of (Inl e, s') \<Rightarrow> (Inl e, s') | (Inr a, s') \<Rightarrow> f a s')"

definition py_seq :: "unit prog \<Rightarrow> 'b prog \<Rightarrow> 'b prog" where
  "py_seq m n = py_bind m (\<lambda>_. n)"

definition try_except :: "unit prog \<Rightarrow> (exn \<Rightarrow> bool) \<Rightarrow> (exn \<Rightarrow> unit prog) \<Rightarrow> unit prog" where
  "try_except body catches handler s =
     (case body s of
        (Inl e, s') \<Rightarrow> if catches e then handler e s' else (Inl e, s')
      | (Inr u, s') \<Rightarrow> (Inr u, s'))"

definition store :: "string \<Rightarrow> pyval \<Rightarrow> unit prog" where
  "store x v s = (Inr (), s\<lparr>globals := (globals s)(x \<mapsto> v)\<rparr>)"

definition load :: "string \<Rightarrow> pyval prog" where
  "load x s = (case globals s x of None \<Rightarrow> (Inl (NameError x), s) | Some v \<Rightarrow> (Inr v, s))"

definition load_str :: "string \<Rightarrow> string prog" where
  "load_str x =
     py_bind (load x) (\<lambda>v. case v of VStr t \<Rightarrow> py_return t | _ \<Rightarrow> py_raise (AttributeError x))"

definition load_json :: "string \<Rightarrow> json prog" where
  "load_json x =
     py_bind (load x) (\<lambda>v. case v of VJson j \<Rightarrow> py_return j | _ \<Rightarrow> py_raise (AttributeError x))"

definition load_resp :: "string \<Rightarrow> response prog" where
  "load_resp x =
     py_bind (load x) (\<lambda>v. case v of VResp r \<Rightarrow> py_return r | _ \<Rightarrow> py_raise (AttributeError x))"

definition py_print :: "string \<Rightarrow> unit prog" where
  "py_print x s = (Inr (), s\<lparr>trace := trace s @ [Print x]\<rparr>)"

definition print_exc :: "exn \<Rightarrow> unit prog" where
  "print_exc e s = (Inr (), s\<lparr>trace := trace s @ [PrintExc e]\<rparr>)"

subsection \<open>Files opened in text mode\<close>

text \<open>
  \<open>open(path)\<close> with no mode opens for reading in text mode and raises
  \<open>FileNotFoundError\<close> for a path that does not exist. The handle is modelled by the bytes
  it will yield. Reading it decodes the bytes (UTF-8 is taken as the encoding) and
  translates the line endings \<open>\r\n\<close> and \<open>\r\<close> to \<open>\n\<close>; \<open>requests\<close> puts the text on the
  wire encoded as UTF-8 again, so that what is sent for a file with valid bytes is the
  bytes with the line endings translated.
\<close>

definition open_file :: "env \<Rightarrow> string \<Rightarrow> string prog" where
  "open_file e path =
     (case fs e path of
        None \<Rightarrow> py_raise (FileNotFoundError path)
      | Some bytes \<Rightarrow> py_return bytes)"

definition continuation :: "nat \<Rightarrow> bool" where
  "continuation b = (0x80 \<le> b \<and> b \<le> 0xBF)"

fun utf8_valid :: "nat list \<Rightarrow> bool" where
  "utf8_valid [] = True"
| "utf8_valid (b # bs) =
     (if b < 0x80 then utf8_valid bs
      else if 0xC2 \<le> b \<and> b \<le> 0xDF then
        (case bs of
           c1 # rest \<Rightarrow> continuation c1 \<and> utf8_valid rest
         | _ \<Rightarrow> False)
      else if 0xE0 \<le> b \<and> b \<le> 0xEF then
        (case bs of
           c1 # c2 # rest \<Rightarrow>
             (if b = 0xE0 then 0xA0 \<le> c1 \<and> c1 \<le> 0xBF
              else if b = 0xED then 0x80 \<le> c1 \<and> c1 \<le> 0x9F
              else continuation c1)
             \<and> continuation c2 \<and> utf8_valid rest
         | _ \<Rightarrow> False)
      else if 0xF0 \<le> b \<and> b \<le> 0xF4 then
        (case bs of
           c1 # c2 # c3 # rest \<Rightarrow>
             (if b = 0xF0 then 0x90 \<le> c1 \<and> c1 \<le> 0xBF
              else if b = 0xF4 then 0x80 \<le> c1 \<and> c1 \<le> 0x8F
              else continuation c1)
             \<and> continuation c2 \<and> continuation c3 \<and> utf8_valid rest
         | _ \<Rightarrow> False)
      else False)"

fun universal_newlines :: "string \<Rightarrow> string" where
  "universal_newlines [] = []"
| "universal_newlines (c # cs) =
     (if c = CHR 0x0D then
        (case cs of
           [] \<Rightarrow> [CHR 0x0A]
         | d # ds \<Rightarrow>
             if d = CHR 0x0A then CHR 0x0A # universal_newlines ds
             else CHR 0x0A # universal_newlines cs)
      else c # universal_newlines cs)"

definition read_text :: "string \<Rightarrow> exn + string" where
  "read_text bytes =
     (if utf8_valid (map of_char bytes) then Inr (universal_newlines bytes)
      else Inl (UnicodeDecodeError ''invalid utf-8''))"

fun read_files :: "(string \<times> string \<times> string) list \<Rightarrow> exn + (string \<times> string \<times> string) list" where
  "read_files [] = Inr []"
| "read_files ((field, filename, handle) # fl) =
     (case read_text handle of
        Inl e \<Rightarrow> Inl e
      | Inr content \<Rightarrow>
          (case read_files fl of
             Inl e \<Rightarrow> Inl e
           | Inr rest \<Rightarrow> Inr ((field, filename, content) # rest)))"

subsection \<open>\<open>requests.post\<close> and \<open>Response.raise_for_status\<close>\<close>

text \<open>
  Neither script passes \<open>allow_redirects\<close>, so \<open>requests\<close> follows redirects. A response
  is a redirect when it has a \<open>Location\<close> header and its status is 301, 302, 303, 307 or
  308; a header that is empty is not followed. The request that follows a redirect goes
  to the URL of the header. After 302 and 303, and after 301 when the method was POST, it
  is a GET; after 307 and 308 it has the method of the request before. Only after 307
  and 308 does the body go with it, and a body that was dropped stays dropped.
\<close>

definition is_redirect :: "response \<Rightarrow> bool" where
  "is_redirect r =
     (location r \<noteq> None
      \<and> (status_code r = 301 \<or> status_code r = 302 \<or> status_code r = 303
          \<or> status_code r = 307 \<or> status_code r = 308))"

definition get_redirect_target :: "response \<Rightarrow> (string \<times> (exn + response)) option" where
  "get_redirect_target r =
     (if is_redirect r then
        (case location r of
           None \<Rightarrow> None
         | Some (target, answer) \<Rightarrow> if target = [] then None else Some (target, answer))
      else None)"

definition rebuild_method :: "nat \<Rightarrow> meth \<Rightarrow> meth" where
  "rebuild_method status m =
     (if status = 303 then GET
      else if status = 302 then GET
      else if status = 301 \<and> m = POST then GET
      else m)"

definition keeps_body :: "nat \<Rightarrow> bool" where
  "keeps_body status = (status = 307 \<or> status = 308)"

text \<open>
  \<open>resolve_redirects\<close> follows the redirects that start at a response, with the method
  and the body of the request that the response answers. Its first argument is the
  number of redirects it may still follow: \<open>max_redirects\<close>, 30, at the start. The
  redirect after the last one allowed raises \<open>TooManyRedirects\<close>; an exception raised
  while a request is sent ends the call as well. The result is what \<open>requests.post\<close>
  returns or raises, with the requests sent on the way.
\<close>

fun resolve_redirects :: "nat \<Rightarrow> meth \<Rightarrow> bool \<Rightarrow> response \<Rightarrow> (exn + response) \<times> event list" where
  "resolve_redirects 0 m body resp =
     (case get_redirect_target resp of
        None \<Rightarrow> (Inr resp, [])
      | Some (target, answer) \<Rightarrow> (Inl (TooManyRedirects ''Exceeded 30 redirects.''), []))"
| "resolve_redirects (Suc n) m body resp =
     (case get_redirect_target resp of
        None \<Rightarrow> (Inr resp, [])
      | Some (target, answer) \<Rightarrow>
          (case answer of
             Inl err \<Rightarrow>
               (Inl err,
                [Follow \<lparr>hop_method = rebuild_method (status_code resp) m,
                         hop_url = target,
                         hop_body = (body \<and> keeps_body (status_code resp))\<rparr>])
           | Inr next \<Rightarrow>
               (case resolve_redirects n (rebuild_method (status_code resp) m)
                       (body \<and> keeps_body (status_code resp)) next of
                  (result, sent) \<Rightarrow>
                    (result,
                     Follow \<lparr>hop_method = rebuild_method (status_code resp) m,
                             hop_url = target,
                             hop_body = (body \<and> keeps_body (status_code resp))\<rparr>
                       # sent))))"

text \<open>
  One request of the session: the POST is sent, and when it is answered the redirects
  are followed from the answer on.
\<close>

definition session_request :: "env \<Rightarrow> request \<Rightarrow> (exn + response) \<times> event list" where
  "session_request e q =
     (case net e q of
        Inl err \<Rightarrow> (Inl err, [Post q])
      | Inr resp \<Rightarrow>
          (case resolve_redirects 30 POST True resp of
             (result, sent) \<Rightarrow> (result, Post q # sent)))"

text \<open>
  \<open>requests.post\<close> prepares the request, which reads the files to attach, and sends it.
  It returns the last response or raises what sending raised. Nothing is sent when
  reading a file fails.
\<close>

definition requests_post :: "env \<Rightarrow> request \<Rightarrow> response prog" where
  "requests_post e req s =
     (case read_files (files req) of
        Inl err \<Rightarrow> (Inl err, s)
      | Inr contents \<Rightarrow>
          (case session_request e (req\<lparr>files := contents\<rparr>) of
             (result, sent) \<Rightarrow> (result, s\<lparr>trace := trace s @ sent\<rparr>)))"

text \<open>
  \<open>raise_for_status\<close> raises \<open>HTTPError\<close> for a status from 400 to 599, with a message
  that names the status, the reason and the URL, and does nothing for any other status.
\<close>

definition http_error_msg :: "response \<Rightarrow> string" where
  "http_error_msg r =
     (if 400 \<le> status_code r \<and> status_code r < 500 then
        dec_digits (status_code r) @ '' Client Error: '' @ reason r @ '' for url: '' @ resp_url r
      else if 500 \<le> status_code r \<and> status_code r < 600 then
        dec_digits (status_code r) @ '' Server Error: '' @ reason r @ '' for url: '' @ resp_url r
      else [])"

definition raise_for_status :: "response \<Rightarrow> unit prog" where
  "raise_for_status r =
     (if http_error_msg r \<noteq> [] then py_raise (HTTPError (http_error_msg r))
      else py_return ())"

section \<open>Script 1: \<open>create-thing.py\<close>\<close>

text \<open>The first value assigned to \<open>params\<close> (lines 12 to 31).\<close>

definition params_first :: json where
  "params_first =
     JDict
      [(py ''_link'',
          JList
           [JDict
             [(py ''start'', JInt 0),
              (py ''end'', JInt 4),
              (py ''resid'', JStr (py ''http://data.knora.org/9935159f67'')),
              (py ''href'', JStr (py ''http://data.knora.org/9935159f67''))],
            JDict
             [(py ''start'', JInt 5),
              (py ''end'', JInt 7),
              (py ''href'', JStr (py ''http://www.google.ch''))]]),
       (py ''bold'',
          JList
           [JDict [(py ''start'', JInt 9), (py ''end'', JInt 11)],
            JDict [(py ''start'', JInt 16), (py ''end'', JInt 18)]])]"

text \<open>The triple-quoted literal assigned to \<open>xml\<close> (lines 33 to 37), line by line.\<close>

definition xml_literal :: string where
  "xml_literal =
     ''<?xml version='' @ [CHR 0x22] @ ''1.0'' @ [CHR 0x22] @ '' encoding='' @ [CHR 0x22]
       @ ''UTF-8'' @ [CHR 0x22] @ ''?>'' @ [CHR 0x0A]
     @ ''       <text>'' @ [CHR 0x0A]
     @ ''            <u><strong>This</strong></u> <u>text</u> <a class='' @ [CHR 0x22]
       @ ''salsah-link'' @ [CHR 0x22] @ '' href='' @ [CHR 0x22]
       @ ''http://data.knora.org/9935159f67'' @ [CHR 0x22] @ ''>links</a> to a thing''
       @ [CHR 0x0A]
     @ ''       </text>'' @ [CHR 0x0A]
     @ ''    ''"

text \<open>The second value assigned to \<open>params\<close> (lines 39 to 47), which reads \<open>xml\<close>.\<close>

definition params_second :: "string \<Rightarrow> json" where
  "params_second xml =
     JDict
      [(py ''restype_id'', JStr (py ''http://www.knora.org/ontology/anything#Thing'')),
       (py ''label'', JStr (py ''A thing to test with'')),
       (py ''project_id'', JStr (py ''http://data.knora.org/projects/anything'')),
       (py ''properties'',
          JDict
           [(py ''http://www.knora.org/ontology/anything#hasText'',
               JList
                [JDict
                  [(py ''richtext_value'',
                      JDict
                       [(py ''xml'', JStr (py xml)),
                        (py ''mapping_id'',
                           JStr (py ''http://data.knora.org/projects/standoff/mappings/StandardMapping''))])]]),
            (py ''http://www.knora.org/ontology/anything#hasInteger'',
               JList [JDict [(py ''int_value'', JInt 12345)]])])]"

text \<open>
  The body of the \<open>try\<close> statement, one line of the definition for each statement of the
  script, and the handler \<open>except Exception as e\<close>, which reads \<open>r\<close> whether or not the
  \<open>try\<close> body got as far as assigning it.
\<close>

definition script1_try :: "env \<Rightarrow> unit prog" where
  "script1_try e =
     py_seq (store ''base_url'' (VStr ''http://localhost/v1/''))
    (py_seq (store ''params'' (VJson params_first))
    (py_seq (store ''xml'' (VStr xml_literal))
    (py_seq (py_bind (load_str ''xml'') (\<lambda>xml. store ''params'' (VJson (params_second xml))))
    (py_seq (py_bind (load_json ''params'') (\<lambda>params. store ''props'' (VStr (json_dumps params))))
    (py_seq (py_bind (load_str ''base_url'') (\<lambda>base_url.
             py_bind (load_str ''props'') (\<lambda>props.
             py_bind (requests_post e
                        \<lparr>url = base_url @ ''resources'',
                         data = Body props,
                         files = [],
                         headers = [(''content-type'', ''application/json; charset=utf8'')],
                         auth = Some (''root'', ''test''),
                         proxies = [(''http'', ''http://localhost:3333'')],
                         timeout = None\<rparr>)
                     (\<lambda>resp. store ''r'' (VResp resp)))))
    (py_seq (py_bind (load_resp ''r'') raise_for_status)
            (py_bind (load_resp ''r'') (\<lambda>r. py_print (resp_text r)))))))))"

definition script1_except :: "exn \<Rightarrow> unit prog" where
  "script1_except e =
     py_seq (py_print (''Knora API answered with an error:'' @ [CHR 0x0A]))
    (py_seq (py_print (exn_str e))
            (py_bind (load_resp ''r'') (\<lambda>r. py_print (resp_text r))))"

definition script1 :: "env \<Rightarrow> unit prog" where
  "script1 e = try_except (script1_try e) is_Exception script1_except"

section \<open>Script 2: \<open>createBEOLTEIMapping.py\<close>\<close>

definition mappingParams :: json where
  "mappingParams =
     JDict
      [(py ''http://api.knora.org/ontology/knora-api/v2#mappingHasName'',
          JStr (py ''BEOLTEIMapping'')),
       (py ''http://api.knora.org/ontology/knora-api/v2#attachedToProject'',
          JStr (py ''http://rdfh.ch/projects/yTerZGyxjZVqFMNNKXCDPF'')),
       (py ''http://www.w3.org/2000/01/rdf-schema#label'', JStr (py ''TEI mapping''))]"

definition xml_path :: string where
  "xml_path = ''../../../src/main/resources/BEOLTEImapping.xml''"

text \<open>
  The arguments of the call are evaluated from left to right: \<open>json.dumps\<close> first, then
  \<open>open\<close>, and only then is \<open>requests.post\<close> entered. The handler is a bare \<open>except:\<close>
  that prints the traceback.
\<close>

definition script2_try :: "env \<Rightarrow> unit prog" where
  "script2_try e =
     py_seq (store ''mappingParams'' (VJson mappingParams))
    (py_seq (py_bind (load_json ''mappingParams'') (\<lambda>mapping.
             py_bind (open_file e xml_path) (\<lambda>handle.
             py_bind (requests_post e
                        \<lparr>url = ''http://localhost:3333/v2/mapping'',
                         data = Form [(''json'', json_dumps mapping)],
                         files = [(''xml'', ''BEOLTEImapping.xml'', handle)],
                         headers = [],
                         auth = Some (''t.schweizer@unibas.ch'', ''test''),
                         proxies = [(''http'', ''http://localhost:3333'')],
                         timeout = None\<rparr>)
                     (\<lambda>resp. store ''mappingRequest'' (VResp resp)))))
    (py_seq (py_bind (load_resp ''mappingRequest'') (\<lambda>r. py_print (resp_text r)))
            (py_bind (load_resp ''mappingRequest'') raise_for_status)))"

definition script2 :: "env \<Rightarrow> unit prog" where
  "script2 e = try_except (script2_try e) (\<lambda>_. True) print_exc"

section \<open>Running a script\<close>

text \<open>
  A script starts in an empty namespace. It ends normally, with exit status 0, or with an
  exception that nothing caught: with exit status 1, or, for \<open>KeyboardInterrupt\<close>, by the
  interrupt signal, which a shell reports as 130.
\<close>

datatype exit_status = Normal | Uncaught exn

fun exit_code :: "exit_status \<Rightarrow> nat" where
  "exit_code Normal = 0"
| "exit_code (Uncaught e) = (if is_Exception e then 1 else 130)"

definition run :: "unit prog \<Rightarrow> event list \<times> exit_status" where
  "run p =
     (case p \<lparr>globals = Map.empty, trace = []\<rparr> of
        (Inl e, s) \<Rightarrow> (trace s, Uncaught e)
      | (Inr u, s) \<Rightarrow> (trace s, Normal))"

text \<open>
  The text on standard output (\<open>print\<close> ends each text with a newline), the exceptions
  whose traceback was printed, the requests that the calls of \<open>requests.post\<close> sent, and
  the methods of all requests on the wire, those that follow redirects included.
\<close>

fun stdout_of :: "event list \<Rightarrow> string" where
  "stdout_of [] = []"
| "stdout_of (Print x # evs) = x @ [CHR 0x0A] @ stdout_of evs"
| "stdout_of (ev # evs) = stdout_of evs"

fun tracebacks :: "event list \<Rightarrow> exn list" where
  "tracebacks [] = []"
| "tracebacks (PrintExc e # evs) = e # tracebacks evs"
| "tracebacks (ev # evs) = tracebacks evs"

fun posts :: "event list \<Rightarrow> request list" where
  "posts [] = []"
| "posts (Post q # evs) = q # posts evs"
| "posts (ev # evs) = posts evs"

fun wire_methods :: "event list \<Rightarrow> meth list" where
  "wire_methods [] = []"
| "wire_methods (Post q # evs) = POST # wire_methods evs"
| "wire_methods (Follow h # evs) = hop_method h # wire_methods evs"
| "wire_methods (ev # evs) = wire_methods evs"

section \<open>Vocabulary of the properties\<close>

text \<open>
  The requests that the scripts are shown to send: the arguments of the two calls with
  the variables replaced by their values. Script 2's depends on what was read from the
  file. \<open>error_banner\<close> is the text of the first \<open>print\<close> of script 1's handler.
\<close>

definition script1_request :: request where
  "script1_request =
     \<lparr>url = ''http://localhost/v1/resources'',
      data = Body (json_dumps (params_second xml_literal)),
      files = [],
      headers = [(''content-type'', ''application/json; charset=utf8'')],
      auth = Some (''root'', ''test''),
      proxies = [(''http'', ''http://localhost:3333'')],
      timeout = None\<rparr>"

definition script2_request :: "string \<Rightarrow> request" where
  "script2_request content =
     \<lparr>url = ''http://localhost:3333/v2/mapping'',
      data = Form [(''json'', json_dumps mappingParams)],
      files = [(''xml'', ''BEOLTEImapping.xml'', content)],
      headers = [],
      auth = Some (''t.schweizer@unibas.ch'', ''test''),
      proxies = [(''http'', ''http://localhost:3333'')],
      timeout = None\<rparr>"

definition error_banner :: string where
  "error_banner = ''Knora API answered with an error:'' @ [CHR 0x0A]"


text \<open>The keys of a dict, and the keys of all dicts inside a value.\<close>

fun dict_keys :: "json \<Rightarrow> unicode list" where
  "dict_keys (JDict kvs) = map fst kvs"
| "dict_keys j = []"

fun dict_get :: "json \<Rightarrow> unicode \<Rightarrow> json option" where
  "dict_get (JDict kvs) k = map_of kvs k"
| "dict_get j k = None"

fun all_keys :: "json \<Rightarrow> unicode list"
  and all_keys_items :: "json list \<Rightarrow> unicode list"
  and all_keys_members :: "(unicode \<times> json) list \<Rightarrow> unicode list" where
  "all_keys (JStr s) = []"
| "all_keys (JInt i) = []"
| "all_keys (JList xs) = all_keys_items xs"
| "all_keys (JDict kvs) = all_keys_members kvs"
| "all_keys_items [] = []"
| "all_keys_items (x # xs) = all_keys x @ all_keys_items xs"
| "all_keys_members [] = []"
| "all_keys_members ((k, v) # kvs) = k # all_keys v @ all_keys_members kvs"

text \<open>Script 1 without the first assignment to \<open>params\<close>, statement for statement.\<close>

definition script1_try_without_first :: "env \<Rightarrow> unit prog" where
  "script1_try_without_first e =
     py_seq (store ''base_url'' (VStr ''http://localhost/v1/''))
    (py_seq (store ''xml'' (VStr xml_literal))
    (py_seq (py_bind (load_str ''xml'') (\<lambda>xml. store ''params'' (VJson (params_second xml))))
    (py_seq (py_bind (load_json ''params'') (\<lambda>params. store ''props'' (VStr (json_dumps params))))
    (py_seq (py_bind (load_str ''base_url'') (\<lambda>base_url.
             py_bind (load_str ''props'') (\<lambda>props.
             py_bind (requests_post e
                        \<lparr>url = base_url @ ''resources'',
                         data = Body props,
                         files = [],
                         headers = [(''content-type'', ''application/json; charset=utf8'')],
                         auth = Some (''root'', ''test''),
                         proxies = [(''http'', ''http://localhost:3333'')],
                         timeout = None\<rparr>)
                     (\<lambda>resp. store ''r'' (VResp resp)))))
    (py_seq (py_bind (load_resp ''r'') raise_for_status)
            (py_bind (load_resp ''r'') (\<lambda>r. py_print (resp_text r))))))))"

definition script1_without_first :: "env \<Rightarrow> unit prog" where
  "script1_without_first e =
     try_except (script1_try_without_first e) is_Exception script1_except"

text \<open>
  Worlds to run the scripts in: a server that answers every request with the given status
  and body and no \<open>Location\<close> header, one that answers with a redirect to
  \<open>http://localhost:3333/moved\<close>, where the given response is the answer, a network on
  which every connection is refused, and a disk that holds the XML file with the given
  bytes or no file at all.
\<close>

definition answer :: "nat \<Rightarrow> string \<Rightarrow> string \<Rightarrow> request \<Rightarrow> exn + response" where
  "answer code why body q = Inr (Response code why body (url q) None)"

definition moved_url :: string where
  "moved_url = ''http://localhost:3333/moved''"

definition redirect :: "nat \<Rightarrow> string \<Rightarrow> response \<Rightarrow> request \<Rightarrow> exn + response" where
  "redirect code body next q =
     Inr (Response code ''Redirect'' body (url q) (Some (moved_url, Inr next)))"

definition refused :: "request \<Rightarrow> exn + response" where
  "refused q = Inl (ConnectionError ''Connection refused'')"

definition disk_with :: "string \<Rightarrow> string \<Rightarrow> string option" where
  "disk_with bytes path = (if path = xml_path then Some bytes else None)"

definition empty_disk :: "string \<Rightarrow> string option" where
  "empty_disk path = None"

section \<open>Serializing a payload and parsing it back\<close>

subsection \<open>Integers\<close>

lemma is_digit_char_of: "d < 10 \<Longrightarrow> is_digit (char_of (48 + d :: nat))"
  by (simp add: is_digit_def)

lemma dec_digits_all_digits: "list_all is_digit (dec_digits n)"
proof (induction n rule: dec_digits.induct)
  case (1 n)
  show ?case
  proof (cases "n < 10")
    case True
    then show ?thesis
      by (subst dec_digits.simps) (simp add: is_digit_char_of)
  next
    case False
    have "n mod 10 < 10" by simp
    then have "is_digit (char_of (48 + n mod 10))" by (rule is_digit_char_of)
    with False 1 show ?thesis
      by (subst dec_digits.simps) simp
  qed
qed

lemma digits_value_snoc:
  "digits_value (ds @ [d]) = 10 * digits_value ds + (of_char d - 48)"
  by (simp add: digits_value_def)

lemma digits_value_dec_digits: "digits_value (dec_digits n) = n"
proof (induction n rule: dec_digits.induct)
  case (1 n)
  show ?case
  proof (cases "n < 10")
    case True
    then show ?thesis
      by (subst dec_digits.simps) (simp add: digits_value_def)
  next
    case False
    have "n mod 10 < 10" by simp
    then have "(of_char (char_of (48 + n mod 10)) :: nat) = 48 + n mod 10"
      by simp
    with False 1 show ?thesis
      by (subst dec_digits.simps) (simp add: digits_value_snoc)
  qed
qed

lemma dec_digits_head:
  "0 < n \<Longrightarrow> \<exists>c cs. dec_digits n = c # cs \<and> is_digit c \<and> of_char c \<noteq> (48::nat)"
proof (induction n rule: dec_digits.induct)
  case (1 n)
  show ?case
  proof (cases "n < 10")
    case True
    with 1(2) have "(of_char (char_of (48 + n)) :: nat) \<noteq> 48" by simp
    with True show ?thesis
      by (subst dec_digits.simps) (simp add: is_digit_char_of)
  next
    case False
    then have "0 < n div 10" by simp
    with False 1(1) obtain c cs where "dec_digits (n div 10) = c # cs"
      "is_digit c" "of_char c \<noteq> (48::nat)" by blast
    with False show ?thesis
      by (subst dec_digits.simps) simp
  qed
qed

lemma dec_digits_zero: "dec_digits 0 = [CHR ''0'']"
  by (subst dec_digits.simps) (simp add: char_of_eq_iff)

lemma ends_value_no_digit:
  "ends_value rest \<Longrightarrow> takeWhile is_digit rest = [] \<and> dropWhile is_digit rest = rest"
  by (cases rest) (auto simp: ends_value_def is_digit_def)

lemma ends_value_no_float: "ends_value rest \<Longrightarrow> \<not> has_frac rest \<and> \<not> has_exp rest"
  by (cases rest) (auto simp: ends_value_def has_frac_def has_exp_def split: list.splits)

lemma takeWhile_digits:
  "list_all is_digit ds \<Longrightarrow> ends_value rest \<Longrightarrow>
     takeWhile is_digit (ds @ rest) = ds \<and> dropWhile is_digit (ds @ rest) = rest"
  by (induction ds) (simp_all add: ends_value_no_digit)

lemma match_integer_dec_digits:
  assumes "ends_value rest"
  shows "match_integer (dec_digits n @ rest) = Some (n, rest)"
proof (cases "n = 0")
  case True
  then show ?thesis
    by (simp add: dec_digits_zero match_integer_def)
next
  case False
  then obtain c cs where cs: "dec_digits n = c # cs" "is_digit c" "of_char c \<noteq> (48::nat)"
    using dec_digits_head [of n] by auto
  have tw: "takeWhile is_digit (dec_digits n @ rest) = dec_digits n"
    "dropWhile is_digit (dec_digits n @ rest) = rest"
    using takeWhile_digits [OF dec_digits_all_digits assms] by auto
  have "match_integer (dec_digits n @ rest) =
          Some (digits_value (takeWhile is_digit (dec_digits n @ rest)),
                dropWhile is_digit (dec_digits n @ rest))"
    using cs by (simp add: match_integer_def)
  then show ?thesis
    by (simp add: tw digits_value_dec_digits)
qed

lemma match_number_int_repr:
  assumes "ends_value rest"
  shows "match_number (int_repr i @ rest) = Some (i, rest)"
proof (cases "i < 0")
  case True
  have "match_integer (dec_digits (nat (- i)) @ rest) = Some (nat (- i), rest)"
    using assms by (rule match_integer_dec_digits)
  with True show ?thesis
    using ends_value_no_float [OF assms]
    by (simp add: match_number_def int_repr_def)
next
  case False
  have "dec_digits (nat i) \<noteq> []"
    by (subst dec_digits.simps) simp
  then obtain c cs where cs: "dec_digits (nat i) = c # cs"
    by (cases "dec_digits (nat i)") auto
  with dec_digits_all_digits [of "nat i"] have "is_digit c"
    by simp
  then have nominus: "of_char c \<noteq> (0x2D::nat)"
    by (auto simp: is_digit_def)
  note cs = cs \<open>is_digit c\<close>
  have "match_integer (dec_digits (nat i) @ rest) = Some (nat i, rest)"
    using assms by (rule match_integer_dec_digits)
  with False cs nominus show ?thesis
    using ends_value_no_float [OF assms]
    by (simp add: match_number_def int_repr_def)
qed


subsection \<open>Strings\<close>

lemma hex_val_hex_digit: "d < 16 \<Longrightarrow> hex_val (hex_digit d) = Some d"
  by (auto simp: hex_val_def hex_digit_def Let_def)

lemma hex_digits_sum:
  "((n div 4096 * 16 + n div 256 mod 16) * 16 + n div 16 mod 16) * 16 + n mod 16 = (n::nat)"
proof -
  have a: "n div 16 div 16 = n div 256"
    by (simp add: div_mult2_eq [symmetric])
  have b: "n div 256 div 16 = n div 4096"
    by (simp add: div_mult2_eq [symmetric])
  have s1: "n div 4096 * 16 + n div 256 mod 16 = n div 256"
    using div_mult_mod_eq [of "n div 256" 16] by (simp add: b)
  have s2: "n div 256 * 16 + n div 16 mod 16 = n div 16"
    using div_mult_mod_eq [of "n div 16" 16] by (simp add: a)
  show ?thesis
    by (simp only: s1 s2 div_mult_mod_eq)
qed

lemma hex4_at_hex4:
  assumes "n < 65536"
  shows "hex4_at (hex4 n @ rest) = Some (n, rest)"
proof -
  have "n div 4096 < 16" using assms by simp
  then have d3: "n div 4096 mod 16 = n div 4096" by simp
  have v: "hex_val (hex_digit (n div 4096)) = Some (n div 4096)"
    "hex_val (hex_digit (n div 256 mod 16)) = Some (n div 256 mod 16)"
    "hex_val (hex_digit (n div 16 mod 16)) = Some (n div 16 mod 16)"
    "hex_val (hex_digit (n mod 16)) = Some (n mod 16)"
    using \<open>n div 4096 < 16\<close> by (simp_all add: hex_val_hex_digit)
  have "hex4_at (hex4 n @ rest) =
      Some (((n div 4096 * 16 + n div 256 mod 16) * 16 + n div 16 mod 16) * 16 + n mod 16, rest)"
    by (simp add: hex4_at_def hex4_def decode_uXXXX_def d3 v)
  then show ?thesis
    by (simp only: hex_digits_sum)
qed

lemma next_char_quote: "next_char (CHR 0x22 # rest) = Closed rest"
  by (simp add: next_char_def)

lemma next_char_u_escape:
  assumes "n < 65536" and "\<not> (0xD800 \<le> n \<and> n \<le> 0xDBFF)"
  shows "next_char (u_escape n @ rest) = Code n rest"
  using assms by (auto simp: next_char_def u_escape_def hex4_at_hex4)

lemma next_char_surrogates:
  assumes "0xD800 \<le> hi" "hi \<le> 0xDBFF" "0xDC00 \<le> lo" "lo \<le> 0xDFFF"
  shows "next_char (u_escape hi @ u_escape lo @ rest) =
           Code (0x10000 + ((hi - 0xD800) * 1024 + (lo - 0xDC00))) rest"
proof -
  have hi: "hex4_at (hex4 hi @ u_escape lo @ rest) = Some (hi, u_escape lo @ rest)"
    using assms by (intro hex4_at_hex4) simp
  have lo: "hex4_at (hex4 lo @ rest) = Some (lo, rest)"
    using assms by (intro hex4_at_hex4) simp
  have bu: "backslash_u_at (u_escape lo @ rest) = Some (hex4 lo @ rest)"
    by (simp add: backslash_u_at_def u_escape_def)
  have "next_char (u_escape hi @ u_escape lo @ rest) =
      (case hex4_at (hex4 hi @ u_escape lo @ rest) of
         None \<Rightarrow> Malformed
       | Some (uni, rest') \<Rightarrow>
           if 0xD800 \<le> uni \<and> uni \<le> 0xDBFF then
             (case backslash_u_at rest' of
                None \<Rightarrow> Code uni rest'
              | Some digits \<Rightarrow>
                  (case hex4_at digits of
                     None \<Rightarrow> Malformed
                   | Some (uni2, rest2) \<Rightarrow>
                       if 0xDC00 \<le> uni2 \<and> uni2 \<le> 0xDFFF
                       then Code (0x10000 + ((uni - 0xD800) * 1024 + (uni2 - 0xDC00))) rest2
                       else Code uni rest'))
           else Code uni rest')"
    by (simp add: next_char_def u_escape_def)
  also have "\<dots> = Code (0x10000 + ((hi - 0xD800) * 1024 + (lo - 0xDC00))) rest"
    using assms by (simp only: hi lo bu option.case prod.case if_True simp_thms)
  finally show ?thesis .
qed


lemma next_char_escape_char:
  assumes "scalar c"
  shows "next_char (escape_char c @ rest) = Code c rest"
proof -
  consider (short) "c = 0x5C \<or> c = 0x22 \<or> c = 0x08 \<or> c = 0x0C \<or> c = 0x0A \<or> c = 0x0D \<or> c = 0x09"
    | (plain) "c \<noteq> 0x5C" "c \<noteq> 0x22" "0x20 \<le> c" "c \<le> 0x7E"
    | (bmp) "c \<noteq> 0x08" "c \<noteq> 0x0C" "c \<noteq> 0x0A" "c \<noteq> 0x0D" "c \<noteq> 0x09"
        "c < 0x20 \<or> 0x7E < c" "c < 0x10000"
    | (astral) "0x10000 \<le> c"
    by linarith
  then show ?thesis
  proof cases
    case short
    then show ?thesis
      by (auto simp: escape_char_def next_char_def backslash_def)
  next
    case plain
    then have "(of_char (char_of c) :: nat) = c" by simp
    with plain show ?thesis
      by (simp add: escape_char_def next_char_def)
  next
    case bmp
    then have esc: "escape_char c = u_escape c"
      by (auto simp: escape_char_def)
    from assms bmp have "\<not> (0xD800 \<le> c \<and> c \<le> 0xDBFF)"
      by (auto simp: scalar_def)
    with bmp show ?thesis
      unfolding esc by (intro next_char_u_escape) simp_all
  next
    case astral
    define v where "v = c - 0x10000"
    from assms astral have v: "v < 0x100000" "c = 0x10000 + v"
      by (auto simp: scalar_def v_def)
    then have small: "v div 1024 < 1024" by simp
    then have m: "v div 1024 mod 1024 = v div 1024" by simp
    from astral have esc: "escape_char c =
        u_escape (0xD800 + v div 1024) @ u_escape (0xDC00 + v mod 1024)"
      using m by (simp add: escape_char_def v_def)
    have "next_char (u_escape (0xD800 + v div 1024) @ u_escape (0xDC00 + v mod 1024) @ rest) =
        Code (0x10000 + ((0xD800 + v div 1024 - 0xD800) * 1024
                          + (0xDC00 + v mod 1024 - 0xDC00))) rest"
      using small by (intro next_char_surrogates) simp_all
    also have "(0xD800 + v div 1024 - 0xD800) * 1024 + (0xDC00 + v mod 1024 - 0xDC00) = v"
      by simp
    finally have "next_char (u_escape (0xD800 + v div 1024) @ u_escape (0xDC00 + v mod 1024) @ rest) =
        Code (0x10000 + v) rest" .
    then show ?thesis
      unfolding esc by (simp add: v(2))
  qed
qed

lemma chunk_Some: "chunk c (Some (str, rest)) = Some (c # str, rest)"
  by (simp add: chunk_def)

lemma scanstring_escaped:
  "list_all scalar s \<Longrightarrow>
     scanstring (concat (map escape_char s) @ CHR 0x22 # rest) = Some (s, rest)"
proof (induction s)
  case Nil
  show ?case
    by (subst scanstring.simps) (simp add: next_char_quote)
next
  case (Cons c s)
  then have c: "scalar c" and ih: "scanstring (concat (map escape_char s) @ CHR 0x22 # rest) = Some (s, rest)"
    by simp_all
  have "scanstring (escape_char c @ concat (map escape_char s) @ CHR 0x22 # rest) =
      chunk c (scanstring (concat (map escape_char s) @ CHR 0x22 # rest))"
    by (subst scanstring.simps) (simp add: next_char_escape_char [OF c])
  then show ?case
    by (simp add: ih chunk_Some)
qed

subsection \<open>Values\<close>

lemma dict_set_fresh: "k \<notin> fst ` set d \<Longrightarrow> dict_set d k v = d @ [(k, v)]"
  by (induction d) auto

lemma dict_fold_distinct:
  "distinct (map fst (d @ kvs)) \<Longrightarrow>
     foldl (\<lambda>d (k, v). dict_set d k v) d kvs = d @ kvs"
proof (induction kvs arbitrary: d)
  case Nil
  then show ?case by simp
next
  case (Cons kv kvs)
  obtain k v where kv: "kv = (k, v)" by (cases kv)
  from Cons.prems have fresh: "k \<notin> fst ` set d" and rest: "distinct (map fst ((d @ [(k, v)]) @ kvs))"
    by (auto simp: kv)
  show ?case
    using Cons.IH [OF rest] by (simp add: kv dict_set_fresh [OF fresh])
qed

lemma dict_of_pairs_distinct: "distinct (map fst kvs) \<Longrightarrow> dict_of_pairs kvs = kvs"
  using dict_fold_distinct [of "[]" kvs] by (simp add: dict_of_pairs_def)

lemma dec_digits_first:
  "\<exists>c cs. dec_digits n = c # cs \<and> is_digit c"
proof -
  have "dec_digits n \<noteq> []"
    by (subst dec_digits.simps) simp
  then obtain c cs where "dec_digits n = c # cs"
    by (cases "dec_digits n") auto
  with dec_digits_all_digits [of n] show ?thesis by simp
qed

lemma int_repr_first:
  "\<exists>c cs. int_repr i = c # cs \<and> (of_char c = (0x2D::nat) \<or> is_digit c)"
  using dec_digits_first [of "nat i"] by (auto simp: int_repr_def)

lemma json_dumps_first:
  "\<exists>c cs. json_dumps v = c # cs \<and> \<not> is_ws c \<and> of_char c \<noteq> (0x5D::nat)"
proof (cases v)
  case (JStr s)
  then show ?thesis
    by (simp add: encode_basestring_ascii_def is_ws_def)
next
  case (JInt i)
  then show ?thesis
    using int_repr_first [of i] by (auto simp: is_ws_def is_digit_def)
next
  case (JList xs)
  then show ?thesis
    by (cases xs) (simp_all add: is_ws_def)
next
  case (JDict kvs)
  then show ?thesis
  proof (cases kvs)
    case Nil
    with JDict show ?thesis by (simp add: is_ws_def)
  next
    case (Cons kv kvs')
    with JDict show ?thesis by (cases kv) (simp add: is_ws_def)
  qed
qed

lemma skip_ws_json_dumps: "skip_ws (json_dumps v @ rest) = json_dumps v @ rest"
  using json_dumps_first [of v] by auto

lemma scan_once_str:
  assumes "list_all scalar s"
  shows "scan_once (Suc n) (encode_basestring_ascii s @ rest) = Some (JStr s, rest)"
  using scanstring_escaped [OF assms, of rest]
  by (simp add: encode_basestring_ascii_def)

lemma scan_once_int:
  assumes "ends_value rest"
  shows "scan_once (Suc n) (int_repr i @ rest) = Some (JInt i, rest)"
proof -
  obtain c cs where c: "int_repr i = c # cs" "of_char c = (0x2D::nat) \<or> is_digit c"
    using int_repr_first [of i] by blast
  then have other: "of_char c \<noteq> (0x22::nat)" "of_char c \<noteq> (0x7B::nat)" "of_char c \<noteq> (0x5B::nat)"
    by (auto simp: is_digit_def)
  have "scan_once (Suc n) (c # cs @ rest) =
      (case match_number (c # cs @ rest) of
         None \<Rightarrow> None
       | Some (i, rest) \<Rightarrow> Some (JInt i, rest))"
    using other by simp
  also have "c # cs @ rest = int_repr i @ rest"
    by (simp add: c(1))
  finally show ?thesis
    by (simp add: match_number_int_repr [OF assms])
qed


lemma ends_value_items: "ends_value (dumps_items xs @ CHR '']'' # rest)"
  by (cases xs) (simp_all add: ends_value_def)

lemma ends_value_members: "ends_value (dumps_members kvs @ CHR ''}'' # rest)"
proof (cases kvs)
  case Nil
  then show ?thesis by (simp add: ends_value_def)
next
  case (Cons kv kvs')
  then show ?thesis by (cases kv) (simp add: ends_value_def)
qed

lemma array_first_step:
  assumes "scan_once n (json_dumps x @ tail) = Some (x, tail)"
    and "array_rest n tail = Some (xs, rest)"
  shows "scan_once (Suc n) (CHR ''['' # json_dumps x @ tail) = Some (JList (x # xs), rest)"
proof -
  obtain c cs where c: "json_dumps x = c # cs" "\<not> is_ws c" "of_char c \<noteq> (0x5D::nat)"
    using json_dumps_first [of x] by blast
  have "scan_once (Suc n) (CHR ''['' # c # cs @ tail) =
      (case scan_once n (c # cs @ tail) of
         None \<Rightarrow> None
       | Some (v, rest) \<Rightarrow>
           (case array_rest n rest of
              None \<Rightarrow> None
            | Some (vs, rest') \<Rightarrow> Some (JList (v # vs), rest')))"
    using c(2,3) by simp
  also have "c # cs @ tail = json_dumps x @ tail"
    by (simp add: c(1))
  finally show ?thesis
    by (simp add: assms)
qed

lemma array_rest_step:
  assumes "scan_once n (json_dumps x @ tail) = Some (x, tail)"
    and "array_rest n tail = Some (xs, rest)"
  shows "array_rest (Suc n) ('', '' @ json_dumps x @ tail) = Some (x # xs, rest)"
proof -
  have "skip_ws (CHR '' '' # json_dumps x @ tail) = json_dumps x @ tail"
    by (simp add: is_ws_def skip_ws_json_dumps)
  then show ?thesis
    by (simp add: is_ws_def assms)
qed

lemma object_member_step:
  assumes "list_all scalar k"
    and "scan_once n (json_dumps v @ tail) = Some (v, tail)"
  shows "object_member (Suc n)
           (concat (map escape_char k) @ CHR 0x22 # '': '' @ json_dumps v @ tail) =
         Some ((k, v), tail)"
proof -
  have key: "scanstring (concat (map escape_char k) @
        CHR 0x22 # CHR '':'' # CHR '' '' # json_dumps v @ tail) =
      Some (k, CHR '':'' # CHR '' '' # json_dumps v @ tail)"
    using assms(1) by (rule scanstring_escaped)
  have "skip_ws (CHR '' '' # json_dumps v @ tail) = json_dumps v @ tail"
    by (simp add: is_ws_def skip_ws_json_dumps)
  then show ?thesis
    by (simp add: key is_ws_def assms(2))
qed

lemma object_first_step:
  assumes "object_member n (concat (map escape_char k) @ CHR 0x22 # '': '' @ json_dumps v @ tail) =
      Some ((k, v), tail)"
    and "object_rest n tail = Some (kvs, rest)"
    and "distinct (map fst ((k, v) # kvs))"
  shows "scan_once (Suc n) (CHR ''{'' # encode_basestring_ascii k @ '': '' @ json_dumps v @ tail) =
      Some (JDict ((k, v) # kvs), rest)"
  using assms(1,2) dict_of_pairs_distinct [OF assms(3)]
  by (simp add: encode_basestring_ascii_def is_ws_def)

lemma object_rest_step:
  assumes "object_member n (concat (map escape_char k) @ CHR 0x22 # '': '' @ json_dumps v @ tail) =
      Some ((k, v), tail)"
    and "object_rest n tail = Some (kvs, rest)"
  shows "object_rest (Suc n) ('', '' @ encode_basestring_ascii k @ '': '' @ json_dumps v @ tail) =
      Some ((k, v) # kvs, rest)"
  using assms by (simp add: encode_basestring_ascii_def is_ws_def)


lemma scan_once_json_dumps:
  fixes v :: json and xs :: "json list" and kvs :: "(unicode \<times> json) list"
  shows "valid_json v \<Longrightarrow> length (json_dumps v) \<le> n \<Longrightarrow> ends_value rest \<Longrightarrow>
           scan_once n (json_dumps v @ rest) = Some (v, rest)"
    and "valid_items xs \<Longrightarrow> length (dumps_items xs) < n \<Longrightarrow>
           array_rest n (dumps_items xs @ CHR '']'' # rest) = Some (xs, rest)"
    and "valid_members kvs \<Longrightarrow> length (dumps_members kvs) < n \<Longrightarrow>
           object_rest n (dumps_members kvs @ CHR ''}'' # rest) = Some (kvs, rest)"
proof (induction v and xs and kvs arbitrary: n rest and n rest and n rest
    rule: json_dumps_dumps_items_dumps_members.induct)
  case (1 s)
  then obtain m where "n = Suc m"
    by (cases n) (simp_all add: encode_basestring_ascii_def)
  with 1 show ?case
    by (simp add: scan_once_str)
next
  case (2 i)
  from int_repr_first [of i] 2 obtain m where "n = Suc m"
    by (cases n) auto
  with 2 show ?case
    by (simp add: scan_once_int)
next
  case 3
  then obtain m where "n = Suc m"
    by (cases n) simp_all
  then show ?case
    by (simp add: is_ws_def)
next
  case (4 x xs)
  from "4.prems" obtain m where n: "n = Suc m"
    by (cases n) simp_all
  from "4.prems" have valid: "valid_json x" "valid_items xs"
    by simp_all
  from "4.prems" n have len: "length (json_dumps x) \<le> m" "length (dumps_items xs) < m"
    by simp_all
  have first: "scan_once m (json_dumps x @ dumps_items xs @ CHR '']'' # rest) =
      Some (x, dumps_items xs @ CHR '']'' # rest)"
    using valid(1) len(1) ends_value_items by (rule "4.IH"(1))
  have more: "array_rest m (dumps_items xs @ CHR '']'' # rest) = Some (xs, rest)"
    using valid(2) len(2) by (rule "4.IH"(2))
  show ?case
    using array_first_step [OF first more] by (simp add: n)
next
  case 5
  then obtain m where "n = Suc m"
    by (cases n) simp_all
  then show ?case
    by (simp add: is_ws_def)
next
  case (6 k v kvs)
  from "6.prems" obtain m where n: "n = Suc m"
    by (cases n) simp_all
  from "6.prems" n obtain m' where m: "m = Suc m'"
    by (cases m) simp_all
  from "6.prems" have valid: "list_all scalar k" "valid_json v" "valid_members kvs"
    and keys: "distinct (map fst ((k, v) # kvs))"
    by simp_all
  from "6.prems" n m have len: "length (json_dumps v) \<le> m'" "length (dumps_members kvs) < m"
    by simp_all
  have val: "scan_once m' (json_dumps v @ dumps_members kvs @ CHR ''}'' # rest) =
      Some (v, dumps_members kvs @ CHR ''}'' # rest)"
    using valid(2) len(1) ends_value_members by (rule "6.IH"(1))
  have more: "object_rest m (dumps_members kvs @ CHR ''}'' # rest) = Some (kvs, rest)"
    using valid(3) len(2) by (rule "6.IH"(2))
  show ?case
    using object_first_step [OF object_member_step [OF valid(1) val, folded m] more keys]
    by (simp add: n)
next
  case 7
  then obtain m where "n = Suc m"
    by (cases n) simp_all
  then show ?case
    by (simp add: is_ws_def)
next
  case (8 x xs)
  from "8.prems" obtain m where n: "n = Suc m"
    by (cases n) simp_all
  from "8.prems" have valid: "valid_json x" "valid_items xs"
    by simp_all
  from "8.prems" n have len: "length (json_dumps x) \<le> m" "length (dumps_items xs) < m"
    by simp_all
  have first: "scan_once m (json_dumps x @ dumps_items xs @ CHR '']'' # rest) =
      Some (x, dumps_items xs @ CHR '']'' # rest)"
    using valid(1) len(1) ends_value_items by (rule "8.IH"(1))
  have more: "array_rest m (dumps_items xs @ CHR '']'' # rest) = Some (xs, rest)"
    using valid(2) len(2) by (rule "8.IH"(2))
  show ?case
    using array_rest_step [OF first more] by (simp add: n)
next
  case 9
  then obtain m where "n = Suc m"
    by (cases n) simp_all
  then show ?case
    by (simp add: is_ws_def)
next
  case (10 k v kvs)
  from "10.prems" obtain m where n: "n = Suc m"
    by (cases n) simp_all
  from "10.prems" n obtain m' where m: "m = Suc m'"
    by (cases m) simp_all
  from "10.prems" have valid: "list_all scalar k" "valid_json v" "valid_members kvs"
    by simp_all
  from "10.prems" n m have len: "length (json_dumps v) \<le> m'" "length (dumps_members kvs) < m"
    by simp_all
  have val: "scan_once m' (json_dumps v @ dumps_members kvs @ CHR ''}'' # rest) =
      Some (v, dumps_members kvs @ CHR ''}'' # rest)"
    using valid(2) len(1) ends_value_members by (rule "10.IH"(1))
  have more: "object_rest m (dumps_members kvs @ CHR ''}'' # rest) = Some (kvs, rest)"
    using valid(3) len(2) by (rule "10.IH"(2))
  show ?case
    using object_rest_step [OF object_member_step [OF valid(1) val, folded m] more]
    by (simp add: n)
qed


lemma scalar_py: "list_all scalar (py s)"
proof -
  have "\<And>c :: char. (of_char c :: nat) < 256"
    by (rule nat_of_char_less_256)
  then have "\<And>c :: char. (of_char c :: nat) < 0xD800"
    by (rule less_trans) simp
  then have "\<And>c :: char. scalar (of_char c)"
    by (simp add: scalar_def)
  then show ?thesis
    by (simp add: py_def list_all_iff)
qed

text \<open>
  \<^bold>\<open>C6\<close>. For every valid payload, parsing its serialization with \<open>json.loads\<close> gives the
  payload back: the same keys in the same order with the same values.
\<close>

theorem json_round_trip:
  assumes "valid_json v"
  shows "json_loads (json_dumps v) = Some v"
proof -
  have "ends_value []"
    by (simp add: ends_value_def)
  with assms have "scan_once (length (json_dumps v)) (json_dumps v @ []) = Some (v, [])"
    by (intro scan_once_json_dumps(1)) simp_all
  then show ?thesis
    using skip_ws_json_dumps [of v "[]"] by (simp add: json_loads_def)
qed

theorem json_round_trip_witness:
  "json_loads (json_dumps (params_second xml_literal)) = Some (params_second xml_literal)
   \<and> json_loads (json_dumps mappingParams) = Some mappingParams
   \<and> json_loads (json_dumps params_first) = Some params_first"
proof -
  have "valid_json (params_second xml_literal)"
    by (simp add: params_second_def scalar_py) (simp add: py_def)
  moreover have "valid_json mappingParams"
    by (simp add: mappingParams_def scalar_py) (simp add: py_def)
  moreover have "valid_json params_first"
    by (simp add: params_first_def scalar_py) (simp add: py_def)
  ultimately show ?thesis
    using json_round_trip [of "params_second xml_literal"] json_round_trip [of mappingParams]
      json_round_trip [of params_first]
    by simp
qed

subsection \<open>The bound on the depth of the decoder\<close>

text \<open>
  What the decoder leaves unread is shorter than what it was given, so that the bound on
  the depth never decides a result once it is at least the length of the input:
  \<open>json_loads\<close> gives the same result with every larger bound.
\<close>

lemma skip_ws_length: "length (skip_ws s) \<le> length s"
  by (induction s) auto

lemma skip_ws_Cons_length: "skip_ws s = d # ds \<Longrightarrow> length ds < length s"
  using skip_ws_length [of s] by simp

lemma skip_ws_less: "length r < length (skip_ws s) \<Longrightarrow> length r < length s"
  using skip_ws_length [of s] by simp

lemma hex4_at_shorter: "hex4_at t = Some (u, r) \<Longrightarrow> length r < length t"
  by (auto simp: hex4_at_def split: list.splits option.splits)

lemma backslash_u_at_shorter: "backslash_u_at t = Some r \<Longrightarrow> length r < length t"
  by (auto simp: backslash_u_at_def split: list.splits if_splits)

lemma next_char_shorter:
  "next_char s = Code c r \<Longrightarrow> length r < length s"
  "next_char s = Closed r \<Longrightarrow> length r < length s"
  by (auto simp: next_char_def split: list.splits if_splits option.splits
      dest!: hex4_at_shorter backslash_u_at_shorter)

lemma scanstring_shorter: "scanstring s = Some (str, r) \<Longrightarrow> length r < length s"
proof (induction s arbitrary: str rule: scanstring.induct)
  case (1 s)
  show ?case
  proof (cases "next_char s")
    case (Closed rest)
    with "1.prems" show ?thesis
      by (subst (asm) scanstring.simps) (auto dest: next_char_shorter)
  next
    case (Code c rest)
    with "1.prems" obtain str' where "scanstring rest = Some (str', r)"
      by (subst (asm) scanstring.simps) (auto simp: chunk_def split: option.splits)
    with Code "1.IH" have "length r < length rest" by blast
    with Code show ?thesis
      by (auto dest: next_char_shorter)
  next
    case Malformed
    with "1.prems" show ?thesis
      by (subst (asm) scanstring.simps) simp
  qed
qed

lemma match_integer_shorter: "match_integer s = Some (n, r) \<Longrightarrow> length r < length s"
proof (cases s)
  case Nil
  then show "match_integer s = Some (n, r) \<Longrightarrow> ?thesis"
    by (simp add: match_integer_def)
next
  case (Cons d t)
  have "length (dropWhile is_digit t) \<le> length t"
    by (rule length_dropWhile_le)
  with Cons show "match_integer s = Some (n, r) \<Longrightarrow> ?thesis"
    by (auto simp: match_integer_def split: if_splits)
qed

lemma match_number_shorter: "match_number s = Some (i, r) \<Longrightarrow> length r < length s"
  by (cases s)
     (auto simp: match_number_def split: if_splits option.splits
       dest!: match_integer_shorter)


lemma decoder_shorter:
  "(\<forall>s v r. scan_once n s = Some (v, r) \<longrightarrow> length r < length s)
   \<and> (\<forall>s vs r. array_rest n s = Some (vs, r) \<longrightarrow> length r < length s)
   \<and> (\<forall>s kv r. object_member n s = Some (kv, r) \<longrightarrow> length r < length s)
   \<and> (\<forall>s kvs r. object_rest n s = Some (kvs, r) \<longrightarrow> length r < length s)"
proof (induction n)
  case 0
  show ?case by simp
next
  case (Suc n)
  then have vals: "\<And>s v r. scan_once n s = Some (v, r) \<Longrightarrow> length r < length s"
    and items: "\<And>s vs r. array_rest n s = Some (vs, r) \<Longrightarrow> length r < length s"
    and member: "\<And>s kv r. object_member n s = Some (kv, r) \<Longrightarrow> length r < length s"
    and members: "\<And>s kvs r. object_rest n s = Some (kvs, r) \<Longrightarrow> length r < length s"
    by blast+
  have a: "length r < length s" if "scan_once (Suc n) s = Some (v, r)" for s v r
  proof (cases s)
    case Nil
    with that show ?thesis by simp
  next
    case (Cons c cs)
    with that show ?thesis
      by (auto split: if_splits option.splits list.splits
          dest!: scanstring_shorter skip_ws_Cons_length vals items member members
            match_number_shorter)
  qed
  have b: "length r < length s" if "array_rest (Suc n) s = Some (vs, r)" for s vs r
    using that skip_ws_length [of s]
    by (auto split: if_splits option.splits list.splits
        dest!: skip_ws_Cons_length vals items skip_ws_less)
  have c: "length r < length s" if "object_member (Suc n) s = Some (kv, r)" for s kv r
    using that
    by (auto split: if_splits option.splits list.splits
        dest!: scanstring_shorter skip_ws_Cons_length vals skip_ws_less)
  have d: "length r < length s" if "object_rest (Suc n) s = Some (kvs, r)" for s kvs r
    using that
    by (auto split: if_splits option.splits list.splits
        dest!: skip_ws_Cons_length member members skip_ws_less)
  from a b c d show ?case by blast
qed


lemma scanstring_Nil: "scanstring [] = None"
  by (subst scanstring.simps) (simp add: next_char_def)

lemma decoder_fuel:
  "(\<forall>s m. length s \<le> n \<longrightarrow> n \<le> m \<longrightarrow> scan_once m s = scan_once n s)
   \<and> (\<forall>s m. length s \<le> n \<longrightarrow> n \<le> m \<longrightarrow> array_rest m s = array_rest n s)
   \<and> (\<forall>s m. length s \<le> n \<longrightarrow> n \<le> m \<longrightarrow> object_member m s = object_member n s)
   \<and> (\<forall>s m. length s \<le> n \<longrightarrow> n \<le> m \<longrightarrow> object_rest m s = object_rest n s)"
proof (induction n)
  case 0
  have "scan_once m [] = None" "array_rest m [] = None" "object_member m [] = None"
    "object_rest m [] = None" for m
    by (cases m; simp add: scanstring_Nil)+
  then show ?case by simp
next
  case (Suc n)
  show ?case
  proof (intro conjI allI impI)
    fix s :: string and m
    assume len: "length s \<le> Suc n" and "Suc n \<le> m"
    then obtain j where m: "m = Suc j" and j: "n \<le> j"
      by (cases m) simp_all
    from Suc j have vals: "\<And>t. length t \<le> n \<Longrightarrow> scan_once j t = scan_once n t"
      and items: "\<And>t. length t \<le> n \<Longrightarrow> array_rest j t = array_rest n t"
      and member: "\<And>t. length t \<le> n \<Longrightarrow> object_member j t = object_member n t"
      and members: "\<And>t. length t \<le> n \<Longrightarrow> object_rest j t = object_rest n t"
      by blast+
    have shorter:
      "\<And>t v r. scan_once n t = Some (v, r) \<Longrightarrow> length r < length t"
      "\<And>t kv r. object_member n t = Some (kv, r) \<Longrightarrow> length r < length t"
      using decoder_shorter [of n] by blast+
    have arr: "(case scan_once j t of
                  None \<Rightarrow> None
                | Some (v, rest) \<Rightarrow>
                    (case array_rest j rest of
                       None \<Rightarrow> None
                     | Some (vs, rest') \<Rightarrow> G v vs rest')) =
               (case scan_once n t of
                  None \<Rightarrow> None
                | Some (v, rest) \<Rightarrow>
                    (case array_rest n rest of
                       None \<Rightarrow> None
                     | Some (vs, rest') \<Rightarrow> G v vs rest'))"
      if "length t \<le> n" for t and G :: "json \<Rightarrow> json list \<Rightarrow> string \<Rightarrow> 'a option"
    proof (cases "scan_once n t")
      case None
      with that show ?thesis by (simp add: vals)
    next
      case (Some p)
      obtain v rest where p: "p = (v, rest)" by (cases p)
      with Some that have "length rest \<le> n"
        using shorter(1) [of t v rest] by simp
      with Some p that show ?thesis
        by (simp add: vals items)
    qed
    have obj: "(case object_member j t of
                  None \<Rightarrow> None
                | Some (kv, rest) \<Rightarrow>
                    (case object_rest j rest of
                       None \<Rightarrow> None
                     | Some (kvs, rest') \<Rightarrow> H kv kvs rest')) =
               (case object_member n t of
                  None \<Rightarrow> None
                | Some (kv, rest) \<Rightarrow>
                    (case object_rest n rest of
                       None \<Rightarrow> None
                     | Some (kvs, rest') \<Rightarrow> H kv kvs rest'))"
      if "length t \<le> n" for t
        and H :: "unicode \<times> json \<Rightarrow> (unicode \<times> json) list \<Rightarrow> string \<Rightarrow> 'a option"
    proof (cases "object_member n t")
      case None
      with that show ?thesis by (simp add: member)
    next
      case (Some p)
      obtain kv rest where p: "p = (kv, rest)" by (cases p)
      with Some that have "length rest \<le> n"
        using shorter(2) [of t kv rest] by simp
      with Some p that show ?thesis
        by (simp add: member members)
    qed
    show "scan_once m s = scan_once (Suc n) s"
    proof (cases s)
      case Nil
      then show ?thesis by (simp add: m)
    next
      case (Cons c cs)
      with len have cs: "length cs \<le> n" by simp
      have ws: "length (skip_ws cs) \<le> n"
        using skip_ws_length [of cs] cs by simp
      have "skip_ws cs = d # ds \<Longrightarrow> length ds \<le> n" for d ds
        using ws by simp
      then show ?thesis
        using ws by (auto simp: Cons m arr obj split: list.splits)
    qed
    show "array_rest m s = array_rest (Suc n) s"
    proof (cases "skip_ws s")
      case Nil
      then show ?thesis by (simp add: m)
    next
      case (Cons d ds)
      then have "length ds \<le> n"
        using skip_ws_length [of s] len by simp
      then have "length (skip_ws ds) \<le> n"
        using skip_ws_length [of ds] by simp
      then show ?thesis
        by (simp add: Cons m arr)
    qed
    show "object_member m s = object_member (Suc n) s"
    proof (cases "scanstring s")
      case None
      then show ?thesis by (simp add: m)
    next
      case (Some p)
      obtain key rest where p: "p = (key, rest)" by (cases p)
      with Some have "length rest < length s"
        by (auto dest: scanstring_shorter)
      with len have rest: "length rest \<le> n" by simp
      show ?thesis
      proof (cases "skip_ws rest")
        case Nil
        with Some p show ?thesis by (simp add: m)
      next
        case (Cons d ds)
        then have "length ds \<le> n"
          using skip_ws_length [of rest] rest by simp
        then have "length (skip_ws ds) \<le> n"
          using skip_ws_length [of ds] by simp
        with Some p Cons show ?thesis
          by (simp add: m vals)
      qed
    qed
    show "object_rest m s = object_rest (Suc n) s"
    proof (cases "skip_ws s")
      case Nil
      then show ?thesis by (simp add: m)
    next
      case (Cons d ds)
      then have ds: "length ds \<le> n"
        using skip_ws_length [of s] len by simp
      show ?thesis
      proof (cases "skip_ws ds")
        case Nil
        with Cons show ?thesis by (simp add: m)
      next
        case inner: (Cons q qs)
        then have "length qs \<le> n"
          using skip_ws_length [of ds] ds by simp
        with Cons inner show ?thesis
          by (simp add: m obj)
      qed
    qed
  qed
qed

lemma scan_once_fuel:
  assumes "length s \<le> n"
  shows "scan_once n s = scan_once (length s) s"
  using decoder_fuel [of "length s"] assms by blast

lemma json_loads_fuel:
  assumes "length s \<le> n"
  shows "json_loads s =
       (case scan_once n (skip_ws s) of
          None \<Rightarrow> None
        | Some (v, rest) \<Rightarrow> if skip_ws rest = [] then Some v else None)"
proof -
  have short: "length (skip_ws s) \<le> length s"
    by (rule skip_ws_length)
  with assms have "length (skip_ws s) \<le> n"
    by simp
  then have one: "scan_once n (skip_ws s) = scan_once (length (skip_ws s)) (skip_ws s)"
    by (rule scan_once_fuel)
  have two: "scan_once (length s) (skip_ws s) = scan_once (length (skip_ws s)) (skip_ws s)"
    using short by (rule scan_once_fuel)
  show ?thesis
    unfolding json_loads_def one two ..
qed

section \<open>What a run of each script does\<close>

lemmas prog_defs = py_return_def py_raise_def py_bind_def py_seq_def try_except_def store_def
  load_def load_str_def load_json_def load_resp_def py_print_def print_exc_def

text \<open>
  The observations of a run are taken event by event.
\<close>

lemma posts_append: "posts (xs @ ys) = posts xs @ posts ys"
  by (induction xs rule: posts.induct) simp_all

lemma stdout_of_append: "stdout_of (xs @ ys) = stdout_of xs @ stdout_of ys"
  by (induction xs rule: stdout_of.induct) simp_all

lemma tracebacks_append: "tracebacks (xs @ ys) = tracebacks xs @ tracebacks ys"
  by (induction xs rule: tracebacks.induct) simp_all


text \<open>
  Following redirects: a response that is no redirect is returned as it is; the requests
  sent on the way are neither prints nor requests of the script; at most 30 of them are
  sent; and once the method is GET it stays GET, so that the POST goes out a second time
  only when its own answer is a redirect with status 307 or 308.
\<close>

lemma resolve_redirects_final:
  "\<not> is_redirect resp \<Longrightarrow> resolve_redirects n m body resp = (Inr resp, [])"
  by (cases n) (simp_all add: get_redirect_target_def)

lemma resolve_redirects_silent:
  "resolve_redirects n m body resp = (result, sent) \<Longrightarrow>
     posts sent = [] \<and> stdout_of sent = [] \<and> tracebacks sent = []"
proof (induction n arbitrary: m body resp result sent)
  case 0
  then show ?case by (auto split: option.splits)
next
  case (Suc n)
  show ?case
  proof (cases "get_redirect_target resp")
    case None
    with Suc.prems show ?thesis by auto
  next
    case (Some p)
    obtain target answer where p: "p = (target, answer)" by (cases p)
    show ?thesis
    proof (cases answer)
      case (Inl err)
      with Some p Suc.prems show ?thesis by auto
    next
      case (Inr nxt)
      obtain r evs where rest: "resolve_redirects n (rebuild_method (status_code resp) m)
          (body \<and> keeps_body (status_code resp)) nxt = (r, evs)"
        by (cases "resolve_redirects n (rebuild_method (status_code resp) m)
          (body \<and> keeps_body (status_code resp)) nxt")
      from Suc.IH [OF rest] Some p Inr rest Suc.prems show ?thesis by auto
    qed
  qed
qed

lemma resolve_redirects_length:
  "resolve_redirects n m body resp = (result, sent) \<Longrightarrow> length sent \<le> n"
proof (induction n arbitrary: m body resp result sent)
  case 0
  then show ?case by (auto split: option.splits)
next
  case (Suc n)
  show ?case
  proof (cases "get_redirect_target resp")
    case None
    with Suc.prems show ?thesis by auto
  next
    case (Some p)
    obtain target answer where p: "p = (target, answer)" by (cases p)
    show ?thesis
    proof (cases answer)
      case (Inl err)
      with Some p Suc.prems show ?thesis by auto
    next
      case (Inr nxt)
      obtain r evs where rest: "resolve_redirects n (rebuild_method (status_code resp) m)
          (body \<and> keeps_body (status_code resp)) nxt = (r, evs)"
        by (cases "resolve_redirects n (rebuild_method (status_code resp) m)
          (body \<and> keeps_body (status_code resp)) nxt")
      from Suc.IH [OF rest] Some p Inr rest Suc.prems show ?thesis by auto
    qed
  qed
qed





lemma session_request_sent:
  assumes "session_request e q = (result, sent)"
  shows "posts sent = [q] \<and> stdout_of sent = [] \<and> tracebacks sent = []
         \<and> length sent \<le> 31 \<and> hd (wire_methods sent) = POST \<and> wire_methods sent \<noteq> []"
proof (cases "net e q")
  case (Inl err)
  with assms show ?thesis by (auto simp: session_request_def)
next
  case (Inr resp)
  obtain r evs where rest: "resolve_redirects 30 POST True resp = (r, evs)"
    by (cases "resolve_redirects 30 POST True resp")
  from resolve_redirects_silent [OF rest] resolve_redirects_length [OF rest] Inr rest assms
  show ?thesis by (auto simp: session_request_def)
qed

lemma session_request_direct:
  "net e q = Inr resp \<Longrightarrow> \<not> is_redirect resp \<Longrightarrow>
     session_request e q = (Inr resp, [Post q])"
  by (simp add: session_request_def resolve_redirects_final)

lemma session_request_refused:
  "net e q = Inl err \<Longrightarrow> session_request e q = (Inl err, [Post q])"
  by (simp add: session_request_def)

text \<open>
  Script 1 always sends its one request. What follows depends on the outcome of the call
  alone: a response with an error status is reported by the handler, any other response
  is printed, and when \<open>requests.post\<close> raised, \<open>r\<close> was never assigned, so that the
  handler's last statement raises \<open>NameError\<close>, which nothing catches.
\<close>

lemma run_script1:
  "run (script1 e) =
     (case session_request e script1_request of
        (Inl err, sent) \<Rightarrow>
          if is_Exception err
          then (sent @ [Print error_banner, Print (exn_str err)], Uncaught (NameError ''r''))
          else (sent, Uncaught err)
      | (Inr resp, sent) \<Rightarrow>
          if http_error_msg resp \<noteq> []
          then (sent @ [Print error_banner, Print (http_error_msg resp),
                        Print (resp_text resp)], Normal)
          else (sent @ [Print (resp_text resp)], Normal))"
  by (simp add: run_def script1_def script1_try_def script1_except_def prog_defs
      requests_post_def raise_for_status_def script1_request_def error_banner_def
      split: sum.splits prod.splits)

text \<open>
  Script 2 sends its request only when the file could be opened and read; every
  exception ends in the bare handler, which prints the traceback.
\<close>

lemma run_script2:
  "run (script2 e) =
     (case fs e xml_path of
        None \<Rightarrow> ([PrintExc (FileNotFoundError xml_path)], Normal)
      | Some bytes \<Rightarrow>
          (case read_text bytes of
             Inl err \<Rightarrow> ([PrintExc err], Normal)
           | Inr content \<Rightarrow>
               (case session_request e (script2_request content) of
                  (Inl err, sent) \<Rightarrow> (sent @ [PrintExc err], Normal)
                | (Inr resp, sent) \<Rightarrow>
                    if http_error_msg resp \<noteq> []
                    then (sent @ [Print (resp_text resp),
                                  PrintExc (HTTPError (http_error_msg resp))], Normal)
                    else (sent @ [Print (resp_text resp)], Normal))))"
  by (simp add: run_def script2_def script2_try_def prog_defs open_file_def
      requests_post_def raise_for_status_def script2_request_def
      split: sum.splits option.splits prod.splits)

lemma posts_script1: "posts (fst (run (script1 e))) = [script1_request]"
proof -
  obtain result sent where s: "session_request e script1_request = (result, sent)"
    by (cases "session_request e script1_request")
  from session_request_sent [OF s] show ?thesis
    by (simp add: run_script1 s posts_append split: sum.splits)
qed

lemma posts_script2:
  "posts (fst (run (script2 e))) =
     (case fs e xml_path of
        None \<Rightarrow> []
      | Some bytes \<Rightarrow>
          (case read_text bytes of Inl err \<Rightarrow> [] | Inr content \<Rightarrow> [script2_request content]))"
proof (cases "fs e xml_path")
  case None
  then show ?thesis by (simp add: run_script2)
next
  case (Some bytes)
  show ?thesis
  proof (cases "read_text bytes")
    case (Inl err)
    with Some show ?thesis by (simp add: run_script2)
  next
    case (Inr content)
    obtain result sent where s: "session_request e (script2_request content) = (result, sent)"
      by (cases "session_request e (script2_request content)")
    from session_request_sent [OF s] Some Inr show ?thesis
      by (simp add: run_script2 s posts_append split: sum.splits)
  qed
qed


lemma dec_digits_eval:
  "n < 10 \<Longrightarrow> dec_digits n = [char_of (48 + n)]"
  "\<not> n < 10 \<Longrightarrow> dec_digits n = dec_digits (n div 10) @ [char_of (48 + n mod 10)]"
  by (subst dec_digits.simps, simp)+

lemmas world_defs = answer_def refused_def disk_with_def empty_disk_def xml_path_def

lemma http_error_msg_2xx:
  "status_code resp < 400 \<Longrightarrow> http_error_msg resp = []"
  by (simp add: http_error_msg_def)



text \<open>
  Script 2 ends normally in every world. Script 1 ends normally exactly when
  \<open>requests.post\<close> returned a response, whatever its status.
\<close>

lemma script2_ends_normally: "snd (run (script2 e)) = Normal"
  by (simp add: run_script2 split: sum.splits option.splits prod.splits)

lemma script1_ends_normally_iff:
  "(snd (run (script1 e)) = Normal) = (\<exists>resp. fst (session_request e script1_request) = Inr resp)"
  by (cases "session_request e script1_request")
     (auto simp: run_script1 split: sum.splits)

text \<open>
  \<^bold>\<open>C1\<close>. The claim that every failure is caught and the script ends normally fails for
  script 1 on a transport failure: with every connection refused, the handler prints the
  banner and the exception, and then its \<open>print(r.text)\<close> raises \<open>NameError\<close> for the
  unbound \<open>r\<close>; the exception leaves the handler and the exit status is 1.
\<close>

theorem transport_failure_escapes_script1:
  "run (script1 \<lparr>fs = empty_disk, net = refused\<rparr>) =
     ([Post script1_request, Print error_banner, Print ''Connection refused''],
      Uncaught (NameError ''r''))
   \<and> exit_code (snd (run (script1 \<lparr>fs = empty_disk, net = refused\<rparr>))) = 1"
  by (simp add: run_script1 session_request_refused refused_def)






text \<open>
  \<^bold>\<open>C7\<close>. When the XML file does not exist, script 2 prints the traceback of the
  \<open>FileNotFoundError\<close>, sends no request and prints nothing else.
\<close>

theorem missing_file_is_reported:
  assumes "fs e xml_path = None"
  shows "run (script2 e) = ([PrintExc (FileNotFoundError xml_path)], Normal)
         \<and> posts (fst (run (script2 e))) = []
         \<and> tracebacks (fst (run (script2 e))) = [FileNotFoundError xml_path]"
  using assms by (simp add: run_script2)

theorem missing_file_is_reported_witness:
  "run (script2 \<lparr>fs = empty_disk, net = answer 200 ''OK'' ''{}''\<rparr>) =
     ([PrintExc (FileNotFoundError xml_path)], Normal)
   \<and> exn_str (FileNotFoundError xml_path) =
       ''[Errno 2] No such file or directory: '' @ [CHR 0x27]
         @ ''../../../src/main/resources/BEOLTEImapping.xml'' @ [CHR 0x27]"
  using missing_file_is_reported [of "\<lparr>fs = empty_disk, net = answer 200 ''OK'' ''{}''\<rparr>"]
  by (simp add: empty_disk_def xml_path_def)

text \<open>
  \<^bold>\<open>C9\<close>. The first assignment to \<open>params\<close> in script 1 is dead: the script is the same
  state transformer as the script without it, the body sent is the serialization of the
  second dict, and neither \<open>_link\<close> nor \<open>bold\<close> is a key anywhere in that dict.
\<close>

theorem first_params_assignment_is_dead:
  "script1 e = script1_without_first e
   \<and> run (script1 e) = run (script1_without_first e)
   \<and> map data (posts (fst (run (script1 e)))) = [Body (json_dumps (params_second xml_literal))]
   \<and> py ''_link'' \<notin> set (all_keys (params_second xml_literal))
   \<and> py ''bold'' \<notin> set (all_keys (params_second xml_literal))"
proof -
  have same: "script1 e = script1_without_first e"
    by (rule ext)
       (simp add: script1_def script1_without_first_def script1_try_def
          script1_try_without_first_def script1_except_def prog_defs requests_post_def
          raise_for_status_def split: sum.splits)
  have sent: "map data (posts (fst (run (script1 e)))) =
      [Body (json_dumps (params_second xml_literal))]"
    by (simp add: posts_script1 script1_request_def)
  have keys: "py ''_link'' \<notin> set (all_keys (params_second xml_literal))"
    "py ''bold'' \<notin> set (all_keys (params_second xml_literal))"
    by (simp_all add: params_second_def py_def)
  from same sent keys show ?thesis by simp
qed

text \<open>
  \<^bold>\<open>C5\<close>. Script 1 posts to \<open>http://localhost/v1/resources\<close> through the proxy
  \<open>http://localhost:3333\<close>, with the content type \<open>application/json; charset=utf8\<close>,
  basic-auth credentials and, as body, the serialization of a dict whose keys are
  \<open>restype_id\<close>, \<open>label\<close>, \<open>project_id\<close> and \<open>properties\<close>; \<open>properties\<close> maps two
  property identifiers to one-element lists, of a \<open>richtext_value\<close> with \<open>xml\<close> and
  \<open>mapping_id\<close>, and of an \<open>int_value\<close> with an integer.
\<close>

theorem script1_request_as_specified:
  "posts (fst (run (script1 e))) =
     [\<lparr>url = ''http://localhost/v1/resources'',
       data = Body (json_dumps (params_second xml_literal)),
       files = [],
       headers = [(''content-type'', ''application/json; charset=utf8'')],
       auth = Some (''root'', ''test''),
       proxies = [(''http'', ''http://localhost:3333'')],
       timeout = None\<rparr>]
   \<and> dict_keys (params_second xml_literal) =
       [py ''restype_id'', py ''label'', py ''project_id'', py ''properties'']
   \<and> dict_get (params_second xml_literal) (py ''properties'') =
       Some (JDict
         [(py ''http://www.knora.org/ontology/anything#hasText'',
             JList [JDict [(py ''richtext_value'',
                JDict [(py ''xml'', JStr (py xml_literal)),
                       (py ''mapping_id'',
                          JStr (py ''http://data.knora.org/projects/standoff/mappings/StandardMapping''))])]]),
          (py ''http://www.knora.org/ontology/anything#hasInteger'',
             JList [JDict [(py ''int_value'', JInt 12345)]])])"
proof -
  have sent: "posts (fst (run (script1 e))) = [script1_request]"
    by (rule posts_script1)
  have keys: "dict_keys (params_second xml_literal) =
       [py ''restype_id'', py ''label'', py ''project_id'', py ''properties'']"
    by (simp add: params_second_def)
  have props: "dict_get (params_second xml_literal) (py ''properties'') =
       Some (JDict
         [(py ''http://www.knora.org/ontology/anything#hasText'',
             JList [JDict [(py ''richtext_value'',
                JDict [(py ''xml'', JStr (py xml_literal)),
                       (py ''mapping_id'',
                          JStr (py ''http://data.knora.org/projects/standoff/mappings/StandardMapping''))])]]),
          (py ''http://www.knora.org/ontology/anything#hasInteger'',
             JList [JDict [(py ''int_value'', JInt 12345)]])])"
    by (simp add: params_second_def py_def)
  from sent keys props show ?thesis
    by (simp add: script1_request_def)
qed


lemma universal_newlines_without_cr:
  "CHR 0x0D \<notin> set bytes \<Longrightarrow> universal_newlines bytes = bytes"
  by (induction bytes rule: universal_newlines.induct) auto

text \<open>
  \<^bold>\<open>C4\<close>, as stated, fails: the file is opened in text mode, so that for a file that
  ends its line with \<open>\r\n\<close> the content attached ends it with \<open>\n\<close>, and is not the
  file's bytes.
\<close>

text \<open>
  \<^bold>\<open>C4\<close>, as stated, fails: the file is opened in text mode, so that for a file that
  ends its line with \<open>\r\n\<close> the content attached ends it with \<open>\n\<close>, and is not the
  file's bytes.
\<close>

theorem crlf_file_is_not_sent_byte_for_byte:
  "fs \<lparr>fs = disk_with (''<a/>'' @ [CHR 0x0D, CHR 0x0A]), net = answer 200 ''OK'' ''{}''\<rparr> xml_path =
     Some (''<a/>'' @ [CHR 0x0D, CHR 0x0A])
   \<and> map files (posts (fst (run (script2
         \<lparr>fs = disk_with (''<a/>'' @ [CHR 0x0D, CHR 0x0A]), net = answer 200 ''OK'' ''{}''\<rparr>)))) =
       [[(''xml'', ''BEOLTEImapping.xml'', ''<a/>'' @ [CHR 0x0A])]]"
  by (simp add: posts_script2 world_defs read_text_def script2_request_def)

text \<open>
  \<^bold>\<open>C4\<close>, amended. For a file that exists and decodes, script 2's request carries the
  field \<open>json\<close> with the serialized mapping of three keys and the file part \<open>xml\<close>, named
  \<open>BEOLTEImapping.xml\<close>, whose content is the file's text with the line endings
  translated; it is the file's bytes when the file holds no carriage return.
\<close>

text \<open>
  \<^bold>\<open>C4\<close>, amended. For a file that exists and decodes, script 2's request carries the
  field \<open>json\<close> with the serialized mapping of three keys and the file part \<open>xml\<close>, named
  \<open>BEOLTEImapping.xml\<close>, whose content is the file's text with the line endings
  translated; it is the file's bytes when the file holds no carriage return.
\<close>

theorem xml_file_attached_as_text:
  assumes "fs e xml_path = Some bytes" and "utf8_valid (map of_char bytes)"
  shows "posts (fst (run (script2 e))) =
           [\<lparr>url = ''http://localhost:3333/v2/mapping'',
             data = Form [(''json'', json_dumps mappingParams)],
             files = [(''xml'', ''BEOLTEImapping.xml'', universal_newlines bytes)],
             headers = [],
             auth = Some (''t.schweizer@unibas.ch'', ''test''),
             proxies = [(''http'', ''http://localhost:3333'')],
             timeout = None\<rparr>]
         \<and> dict_keys mappingParams =
             [py ''http://api.knora.org/ontology/knora-api/v2#mappingHasName'',
              py ''http://api.knora.org/ontology/knora-api/v2#attachedToProject'',
              py ''http://www.w3.org/2000/01/rdf-schema#label'']
         \<and> (CHR 0x0D \<notin> set bytes \<longrightarrow> universal_newlines bytes = bytes)"
proof -
  have sent: "posts (fst (run (script2 e))) = [script2_request (universal_newlines bytes)]"
    using assms by (simp add: posts_script2 read_text_def)
  have keys: "dict_keys mappingParams =
             [py ''http://api.knora.org/ontology/knora-api/v2#mappingHasName'',
              py ''http://api.knora.org/ontology/knora-api/v2#attachedToProject'',
              py ''http://www.w3.org/2000/01/rdf-schema#label'']"
    by (simp add: mappingParams_def)
  from sent keys show ?thesis
    by (simp add: script2_request_def universal_newlines_without_cr)
qed

theorem xml_file_attached_as_text_witness:
  "map files (posts (fst (run (script2
      \<lparr>fs = disk_with ''<mapping/>'', net = answer 200 ''OK'' ''{}''\<rparr>)))) =
     [[(''xml'', ''BEOLTEImapping.xml'', ''<mapping/>'')]]
   \<and> universal_newlines ''<mapping/>'' = ''<mapping/>''"
  using xml_file_attached_as_text
    [of "\<lparr>fs = disk_with ''<mapping/>'', net = answer 200 ''OK'' ''{}''\<rparr>" "''<mapping/>''"]
  by (simp add: world_defs posts_script2 read_text_def)



text \<open>
  A redirect whose target answers with a response that is no redirect: one more request
  is sent and the answer to it is what \<open>requests.post\<close> returns.
\<close>

lemma one_redirect:
  assumes "is_redirect resp" and "location resp = Some (target, Inr nxt)"
    and "\<not> is_redirect nxt" and "target \<noteq> []"
  shows "resolve_redirects (Suc n) m body resp =
           (Inr nxt,
            [Follow \<lparr>hop_method = rebuild_method (status_code resp) m,
                     hop_url = target,
                     hop_body = (body \<and> keeps_body (status_code resp))\<rparr>])"
  using assms by (simp add: get_redirect_target_def resolve_redirects_final)

lemma moved_url_nonempty: "moved_url \<noteq> []"
  by (simp add: moved_url_def)

lemma session_request_one_redirect:
  assumes "net e q = Inr resp"
    and "is_redirect resp" and "location resp = Some (target, Inr nxt)"
    and "\<not> is_redirect nxt" and "target \<noteq> []"
  shows "session_request e q =
           (Inr nxt,
            [Post q,
             Follow \<lparr>hop_method = rebuild_method (status_code resp) POST,
                     hop_url = target,
                     hop_body = keeps_body (status_code resp)\<rparr>])"
proof -
  have "resolve_redirects (Suc 29) POST True resp =
      (Inr nxt,
       [Follow \<lparr>hop_method = rebuild_method (status_code resp) POST,
                hop_url = target,
                hop_body = (True \<and> keeps_body (status_code resp))\<rparr>])"
    using assms(2-5) by (rule one_redirect)
  moreover have "Suc 29 = 30" by simp
  ultimately show ?thesis
    using assms(1) by (simp add: session_request_def)
qed

text \<open>
  \<^bold>\<open>C2\<close>. When the response that \<open>requests.post\<close> returns has a 2xx status, each script
  prints the body of that response and nothing else: the run consists of the requests
  sent and a single \<open>print\<close> of the body, standard output holds the body (and the newline
  that \<open>print\<close> ends it with), no traceback is printed, and the script ends normally.
  Script 1 does so in every world, script 2 whenever the XML file could be opened and
  read. A 2xx answer to the script's own request is never a redirect, so that the run is
  then the one request and the print.
\<close>

theorem success_prints_exactly_the_body:
  assumes "200 \<le> status_code resp" and "status_code resp < 300"
  shows "(session_request e script1_request = (Inr resp, sent) \<longrightarrow>
            run (script1 e) = (sent @ [Print (resp_text resp)], Normal)
            \<and> stdout_of (fst (run (script1 e))) = resp_text resp @ [CHR 0x0A]
            \<and> tracebacks (fst (run (script1 e))) = [])
         \<and> (fs e xml_path = Some bytes \<and> read_text bytes = Inr content
              \<and> session_request e (script2_request content) = (Inr resp, sent) \<longrightarrow>
            run (script2 e) = (sent @ [Print (resp_text resp)], Normal)
            \<and> stdout_of (fst (run (script2 e))) = resp_text resp @ [CHR 0x0A]
            \<and> tracebacks (fst (run (script2 e))) = [])
         \<and> (net e script1_request = Inr resp \<longrightarrow>
            run (script1 e) = ([Post script1_request, Print (resp_text resp)], Normal))
         \<and> (fs e xml_path = Some bytes \<and> read_text bytes = Inr content
              \<and> net e (script2_request content) = Inr resp \<longrightarrow>
            run (script2 e) = ([Post (script2_request content), Print (resp_text resp)], Normal))"
proof -
  have ok: "http_error_msg resp = []"
    using assms(2) by (simp add: http_error_msg_2xx)
  have final: "\<not> is_redirect resp"
    using assms by (simp add: is_redirect_def)
  have one: "run (script1 e) = (sent @ [Print (resp_text resp)], Normal)
      \<and> stdout_of (fst (run (script1 e))) = resp_text resp @ [CHR 0x0A]
      \<and> tracebacks (fst (run (script1 e))) = []"
    if s: "session_request e script1_request = (Inr resp, sent)"
    using session_request_sent [OF s] ok
    by (simp add: run_script1 s stdout_of_append tracebacks_append)
  have two: "run (script2 e) = (sent @ [Print (resp_text resp)], Normal)
      \<and> stdout_of (fst (run (script2 e))) = resp_text resp @ [CHR 0x0A]
      \<and> tracebacks (fst (run (script2 e))) = []"
    if "fs e xml_path = Some bytes" "read_text bytes = Inr content"
      and s: "session_request e (script2_request content) = (Inr resp, sent)"
    using session_request_sent [OF s] ok that(1,2)
    by (simp add: run_script2 s stdout_of_append tracebacks_append)
  have three: "run (script1 e) = ([Post script1_request, Print (resp_text resp)], Normal)"
    if "net e script1_request = Inr resp"
    using session_request_direct [OF that final] ok by (simp add: run_script1)
  have four: "run (script2 e) = ([Post (script2_request content), Print (resp_text resp)], Normal)"
    if "fs e xml_path = Some bytes" "read_text bytes = Inr content"
      "net e (script2_request content) = Inr resp"
    using session_request_direct [OF that(3) final] ok that(1,2) by (simp add: run_script2)
  from one two three four show ?thesis by blast
qed

theorem success_prints_exactly_the_body_witness:
  "run (script1 \<lparr>fs = empty_disk, net = answer 200 ''OK'' ''{}''\<rparr>) =
     ([Post script1_request, Print ''{}''], Normal)
   \<and> stdout_of (fst (run (script1 \<lparr>fs = empty_disk, net = answer 200 ''OK'' ''{}''\<rparr>))) =
       ''{}'' @ [CHR 0x0A]
   \<and> run (script2 \<lparr>fs = disk_with ''<mapping/>'', net = answer 200 ''OK'' ''{}''\<rparr>) =
     ([Post (script2_request ''<mapping/>''), Print ''{}''], Normal)
   \<and> stdout_of (fst (run (script2 \<lparr>fs = disk_with ''<mapping/>'', net = answer 200 ''OK'' ''{}''\<rparr>))) =
       ''{}'' @ [CHR 0x0A]
   \<and> run (script1 \<lparr>fs = empty_disk,
                     net = redirect 307 ''moved'' (Response 200 ''OK'' ''done'' moved_url None)\<rparr>) =
     ([Post script1_request,
       Follow \<lparr>hop_method = POST, hop_url = moved_url, hop_body = True\<rparr>,
       Print ''done''], Normal)"
  using success_prints_exactly_the_body
    [of "Response 200 ''OK'' ''{}'' ''http://localhost/v1/resources'' None"
        "\<lparr>fs = empty_disk, net = answer 200 ''OK'' ''{}''\<rparr>"
        "[Post script1_request]"]
    success_prints_exactly_the_body
    [of "Response 200 ''OK'' ''{}'' ''http://localhost:3333/v2/mapping'' None"
        "\<lparr>fs = disk_with ''<mapping/>'', net = answer 200 ''OK'' ''{}''\<rparr>"
        "[Post (script2_request ''<mapping/>'')]" "''<mapping/>''" "''<mapping/>''"]
    success_prints_exactly_the_body
    [of "Response 200 ''OK'' ''done'' moved_url None"
        "\<lparr>fs = empty_disk,
          net = redirect 307 ''moved'' (Response 200 ''OK'' ''done'' moved_url None)\<rparr>"
        "[Post script1_request,
          Follow \<lparr>hop_method = POST, hop_url = moved_url, hop_body = True\<rparr>]"]
  by (simp add: session_request_direct session_request_one_redirect moved_url_nonempty is_redirect_def
      rebuild_method_def keeps_body_def world_defs redirect_def read_text_def
      script1_request_def script2_request_def)


text \<open>
  \<^bold>\<open>C10\<close>, as stated, fails for a response that \<open>requests\<close> follows as a redirect: the
  server answers the request of script 2 with status 307 and the body \<open>moved\<close>, the
  request is sent again to the new URL, and what the script prints is the body \<open>done\<close>
  of the answer to that request; the body of the response with status 307 is never
  printed.
\<close>

theorem redirect_answer_body_is_not_printed:
  "net \<lparr>fs = disk_with ''<mapping/>'',
        net = redirect 307 ''moved'' (Response 200 ''OK'' ''done'' moved_url None)\<rparr>
     (script2_request ''<mapping/>'') =
     Inr (Response 307 ''Redirect'' ''moved'' ''http://localhost:3333/v2/mapping''
            (Some (moved_url, Inr (Response 200 ''OK'' ''done'' moved_url None))))
   \<and> run (script2 \<lparr>fs = disk_with ''<mapping/>'',
                     net = redirect 307 ''moved'' (Response 200 ''OK'' ''done'' moved_url None)\<rparr>) =
     ([Post (script2_request ''<mapping/>''),
       Follow \<lparr>hop_method = POST, hop_url = moved_url, hop_body = True\<rparr>,
       Print ''done''], Normal)
   \<and> stdout_of (fst (run (script2 \<lparr>fs = disk_with ''<mapping/>'',
                     net = redirect 307 ''moved'' (Response 200 ''OK'' ''done'' moved_url None)\<rparr>))) =
       ''done'' @ [CHR 0x0A]"
  by (simp add: run_script2 session_request_one_redirect moved_url_nonempty is_redirect_def
      rebuild_method_def keeps_body_def world_defs redirect_def read_text_def
      http_error_msg_def script2_request_def)

text \<open>
  \<^bold>\<open>C10\<close>, amended. In script 2, whatever the status of the response that
  \<open>requests.post\<close> returns (the last one, when redirects were followed), the body of that
  response is printed once, after the requests sent and before the status is checked; an
  error status only adds the traceback after it.
\<close>

theorem body_printed_before_status_check:
  assumes "fs e xml_path = Some bytes" and "read_text bytes = Inr content"
    and "session_request e (script2_request content) = (Inr resp, sent)"
  shows "fst (run (script2 e)) =
           sent @ Print (resp_text resp) #
             (if http_error_msg resp = [] then []
              else [PrintExc (HTTPError (http_error_msg resp))])
         \<and> stdout_of (fst (run (script2 e))) = resp_text resp @ [CHR 0x0A]
         \<and> snd (run (script2 e)) = Normal"
  using session_request_sent [OF assms(3)] assms
  by (simp add: run_script2 stdout_of_append)

theorem body_printed_before_status_check_witness:
  "fst (run (script2 \<lparr>fs = disk_with ''<mapping/>'',
                     net = redirect 302 ''moved'' (Response 500 ''Oops'' ''stack'' moved_url None)\<rparr>)) =
     [Post (script2_request ''<mapping/>''),
      Follow \<lparr>hop_method = GET, hop_url = moved_url, hop_body = False\<rparr>,
      Print ''stack'',
      PrintExc (HTTPError ''500 Server Error: Oops for url: http://localhost:3333/moved'')]
   \<and> stdout_of (fst (run (script2 \<lparr>fs = disk_with ''<mapping/>'',
                     net = redirect 302 ''moved'' (Response 500 ''Oops'' ''stack'' moved_url None)\<rparr>))) =
       ''stack'' @ [CHR 0x0A]
   \<and> fst (run (script2 \<lparr>fs = disk_with ''<mapping/>'', net = answer 200 ''OK'' ''{}''\<rparr>)) =
     [Post (script2_request ''<mapping/>''), Print ''{}'']"
  using body_printed_before_status_check
    [of "\<lparr>fs = disk_with ''<mapping/>'',
          net = redirect 302 ''moved'' (Response 500 ''Oops'' ''stack'' moved_url None)\<rparr>"
        "''<mapping/>''" "''<mapping/>''"
        "Response 500 ''Oops'' ''stack'' moved_url None"
        "[Post (script2_request ''<mapping/>''),
          Follow \<lparr>hop_method = GET, hop_url = moved_url, hop_body = False\<rparr>]"]
    body_printed_before_status_check
    [of "\<lparr>fs = disk_with ''<mapping/>'', net = answer 200 ''OK'' ''{}''\<rparr>"
        "''<mapping/>''" "''<mapping/>''"
        "Response 200 ''OK'' ''{}'' ''http://localhost:3333/v2/mapping'' None"
        "[Post (script2_request ''<mapping/>'')]"]
  by (simp add: session_request_direct session_request_one_redirect moved_url_nonempty is_redirect_def
      rebuild_method_def keeps_body_def world_defs redirect_def moved_url_def read_text_def
      http_error_msg_def dec_digits_eval char_of_eq_iff script2_request_def)









end
